theory Spec2Isabelle
  imports Complex_Main "HOL-Library.AList" "HOL-Library.List_Lexorder" "HOL-Library.Char_ord"
begin

section \<open>Data model\<close>

text \<open>
  The six named boolean flags of a room or of a request, as the forms and the sample data
  build them: \<^verbatim>\<open>{ projector, lab, accessible, whiteboard, audio, smartboard }\<close>.
\<close>

record facility_flags =
  projector :: bool
  lab :: bool
  accessible :: bool
  whiteboard :: bool
  audio :: bool
  smartboard :: bool

text \<open>
  A capacity is a JavaScript number: the result of \<^verbatim>\<open>parseInt\<close> on a form field, which
  is an integer or, for a field without digits, \<^verbatim>\<open>NaN\<close>; no code checks it before it is
  stored or used. The operations are the ones the code applies to capacities. Every
  comparison with \<^verbatim>\<open>NaN\<close> is false, and arithmetic on \<^verbatim>\<open>NaN\<close> gives \<^verbatim>\<open>NaN\<close>.
  Fractions, infinities and the negative zero are not modelled.
\<close>

datatype number = NaN | Num int

text \<open>\<^verbatim>\<open>a < b\<close>\<close>

fun less_number :: "number \<Rightarrow> number \<Rightarrow> bool" where
  "less_number (Num a) (Num b) = (a < b)"
| "less_number _ _ = False"

text \<open>\<^verbatim>\<open>a - b\<close>\<close>

fun minus_number :: "number \<Rightarrow> number \<Rightarrow> number" where
  "minus_number (Num a) (Num b) = Num (a - b)"
| "minus_number _ _ = NaN"

text \<open>\<^verbatim>\<open>Math.abs(a)\<close>\<close>

fun abs_number :: "number \<Rightarrow> number" where
  "abs_number (Num a) = Num \<bar>a\<bar>"
| "abs_number NaN = NaN"

text \<open>\<^verbatim>\<open>Math.max(a, b)\<close>\<close>

fun max_number :: "number \<Rightarrow> number \<Rightarrow> number" where
  "max_number (Num a) (Num b) = Num (max a b)"
| "max_number _ _ = NaN"

text \<open>
  \<^verbatim>\<open>d / m <= 0.25\<close>. A division by zero yields \<^verbatim>\<open>NaN\<close> for \<open>d = 0\<close>, which is not
  at most 0.25, and an infinity of the sign of \<open>d\<close> otherwise. For integers of magnitude
  below \<open>2^53\<close> the rounded quotient is at most 0.25 exactly when the exact quotient is.
\<close>

fun quotient_at_most_quarter :: "number \<Rightarrow> number \<Rightarrow> bool" where
  "quotient_at_most_quarter (Num d) (Num m) =
     (if m = 0 then d < 0 else real_of_int d / real_of_int m \<le> 0.25)"
| "quotient_at_most_quarter _ _ = False"

text \<open>A room record.\<close>

record room =
  room_id :: string
  building :: string
  capacity :: number
  floor_level :: int
  facilities :: facility_flags

text \<open>A node of \<^verbatim>\<open>roomsGraph\<close>: \<^verbatim>\<open>{ ...room, adjacentRooms: [] }\<close>.\<close>

record node = room +
  adjacentRooms :: "string list"

text \<open>
  The form data of an allocation request. Dates and times are the strings of the form
  fields; JavaScript compares them as strings, here by the lexicographic order on
  character codes.
\<close>

record request =
  course_name :: string
  instructor :: string
  date :: string
  start_time :: string
  end_time :: string
  req_capacity :: number
  req_building :: string
  req_facilities :: facility_flags

text \<open>A booking of the ledger: \<^verbatim>\<open>{ ...formData, room, booking_id, timestamp }\<close>.\<close>

record booking = request +
  room :: node
  booking_id :: string
  booking_timestamp :: string

record log_entry =
  log_type :: string
  message :: string
  timestamp :: string

text \<open>
  The module-level state: \<^verbatim>\<open>allRooms\<close>, \<^verbatim>\<open>roomsGraph\<close> (a \<^verbatim>\<open>Map\<close>, kept as an
  association list in insertion order), \<^verbatim>\<open>schedulesArray\<close>, \<^verbatim>\<open>logsQueue\<close>, and the three
  items of \<^verbatim>\<open>localStorage\<close> (absent or holding the serialised sequence). A sequence
  is taken to be read back as it was written; for a capacity \<^verbatim>\<open>NaN\<close>, which JSON writes
  as \<^verbatim>\<open>null\<close>, that is not so, and no property below reads such a room back.
\<close>

record app_state =
  allRooms :: "room list"
  roomsGraph :: "(string \<times> node) list"
  schedulesArray :: "booking list"
  logsQueue :: "log_entry list"
  stored_rooms :: "room list option"
  stored_schedules :: "booking list option"
  stored_logs :: "log_entry list option"

definition initial_state :: app_state where
  "initial_state = \<lparr>allRooms = [], roomsGraph = [], schedulesArray = [], logsQueue = [],
     stored_rooms = None, stored_schedules = None, stored_logs = None\<rparr>"

text \<open>
  The outcome of a \<^verbatim>\<open>fetch\<close> followed by \<^verbatim>\<open>response.json()\<close>: either of them throws, or
  the parsed object has the requested field or lacks it.
\<close>

datatype 'a fetched = Fetch_failed | Fetched "'a list option"

section \<open>The log queue\<close>

text \<open>
  \<^verbatim>\<open>addLog(type, message)\<close>; the first argument is the value of
  \<^verbatim>\<open>new Date().toISOString()\<close> at the call. \<^verbatim>\<open>unshift\<close> puts the entry at the front,
  \<^verbatim>\<open>pop\<close> removes the last element, and the queue is written to the local cache.
\<close>

definition addLog :: "string \<Rightarrow> string \<Rightarrow> string \<Rightarrow> app_state \<Rightarrow> app_state" where
  "addLog now type_arg msg st =
     (let log = \<lparr>log_type = type_arg, message = msg, timestamp = now\<rparr>;
          unshifted = log # logsQueue st;
          queue = (if length unshifted > 100 then butlast unshifted else unshifted)
      in st\<lparr>logsQueue := queue, stored_logs := Some queue\<rparr>)"

text \<open>\<^verbatim>\<open>loadLogs()\<close>, on the outcome of fetching \<^verbatim>\<open>/logs\<close>.\<close>

definition loadLogs :: "log_entry fetched \<Rightarrow> app_state \<Rightarrow> app_state" where
  "loadLogs response st =
     (case response of
        Fetched logs \<Rightarrow>
          (let queue = (case logs of Some l \<Rightarrow> l | None \<Rightarrow> [])
           in st\<lparr>logsQueue := queue, stored_logs := Some queue\<rparr>)
      | Fetch_failed \<Rightarrow>
          (case stored_logs st of
             Some savedLogs \<Rightarrow> st\<lparr>logsQueue := savedLogs\<rparr>
           | None \<Rightarrow> st))"

section \<open>Availability\<close>

text \<open>\<^verbatim>\<open>checkAvailability(roomId, date, startTime, endTime)\<close> over \<^verbatim>\<open>schedulesArray\<close>.\<close>

definition checkAvailability :: "app_state \<Rightarrow> string \<Rightarrow> string \<Rightarrow> string \<Rightarrow> string \<Rightarrow> bool" where
  "checkAvailability st roomId date_arg startTime endTime =
     (\<not> list_ex (\<lambda>booking.
          if room_id (room booking) \<noteq> roomId then False
          else if date booking \<noteq> date_arg then False
          else \<not> (endTime \<le> start_time booking \<or> startTime \<ge> end_time booking))
        (schedulesArray st))"

section \<open>The rooms graph\<close>

type_synonym rooms_map = "(string \<times> node) list"

text \<open>
  \<^verbatim>\<open>roomsGraph\<close> is a \<^verbatim>\<open>Map\<close> from \<^verbatim>\<open>room_id\<close> to node. It is an association list in
  insertion order: \<^verbatim>\<open>Map.prototype.set\<close> replaces the value of a key that is present, in
  place, and appends a new key at the end, which is \<^const>\<open>AList.update\<close>; \<^verbatim>\<open>get\<close> is
  \<^const>\<open>map_of\<close>.
\<close>

definition new_node :: "room \<Rightarrow> node" where
  "new_node r = \<lparr>room_id = room_id r, building = building r, capacity = capacity r,
     floor_level = floor_level r, facilities = facilities r, adjacentRooms = []\<rparr>"

text \<open>
  \<^verbatim>\<open>roomsGraph.get(key).adjacentRooms.push(x)\<close>: the node stored under the key is mutated
  in place. Every key that is used was set by the first pass, so the lookup never fails.
\<close>

definition push_adjacent :: "string \<Rightarrow> string \<Rightarrow> rooms_map \<Rightarrow> rooms_map" where
  "push_adjacent key x g =
     map (\<lambda>(k, n). if k = key then (k, n\<lparr>adjacentRooms := adjacentRooms n @ [x]\<rparr>) else (k, n)) g"

definition adjacent_of :: "rooms_map \<Rightarrow> string \<Rightarrow> string list" where
  "adjacent_of g key = (case map_of g key of Some n \<Rightarrow> adjacentRooms n | None \<Rightarrow> [])"

text \<open>
  The capacity test of both graph builders, on the capacities of the two rooms:
  \<^verbatim>\<open>capacityDiff = Math.abs(c1 - c2)\<close>, \<^verbatim>\<open>maxCapacity = Math.max(c1, c2)\<close>,
  \<^verbatim>\<open>capacityDiff / maxCapacity <= 0.25\<close>.
\<close>

definition similarCapacity :: "number \<Rightarrow> number \<Rightarrow> bool" where
  "similarCapacity c1 c2 =
     (let capacityDiff = abs_number (minus_number c1 c2);
          maxCapacity = max_number c1 c2
      in quotient_at_most_quarter capacityDiff maxCapacity)"

text \<open>The body of the inner callback of \<^verbatim>\<open>buildRoomsGraph\<close> for a pair with \<^verbatim>\<open>i < j\<close>.\<close>

definition connect :: "room \<Rightarrow> room \<Rightarrow> rooms_map \<Rightarrow> rooms_map" where
  "connect room1 room2 g =
     (let g1 = (if building room1 = building room2
                then push_adjacent (room_id room2) (room_id room1)
                       (push_adjacent (room_id room1) (room_id room2) g)
                else g)
      in if similarCapacity (capacity room1) (capacity room2)
         then (let g2 = (if room_id room2 \<in> set (adjacent_of g1 (room_id room1)) then g1
                         else push_adjacent (room_id room1) (room_id room2) g1);
                   g3 = (if room_id room1 \<in> set (adjacent_of g2 (room_id room2)) then g2
                         else push_adjacent (room_id room2) (room_id room1) g2)
               in g3)
         else g1)"

definition add_nodes :: "room list \<Rightarrow> rooms_map" where
  "add_nodes rooms = fold (\<lambda>room g. AList.update (room_id room) (new_node room) g) rooms []"

definition add_edges :: "room list \<Rightarrow> rooms_map \<Rightarrow> rooms_map" where
  "add_edges rooms g =
     fold (\<lambda>(i, room1) g.
        fold (\<lambda>(j, room2) g. if i \<ge> j then g else connect room1 room2 g)
          (enumerate 0 rooms) g)
       (enumerate 0 rooms) g"

definition buildRoomsGraph :: "app_state \<Rightarrow> app_state" where
  "buildRoomsGraph st = st\<lparr>roomsGraph := add_edges (allRooms st) (add_nodes (allRooms st))\<rparr>"

section \<open>Allocation\<close>

text \<open>
  The facilities loop of \<^verbatim>\<open>allocateRoom\<close> over \<^verbatim>\<open>Object.entries(requirements.facilities)\<close>,
  each entry paired with \<^verbatim>\<open>room.facilities[facility]\<close>; it stops at the first requested
  flag that the room lacks.
\<close>

definition facility_entries :: "facility_flags \<Rightarrow> facility_flags \<Rightarrow> (bool \<times> bool) list" where
  "facility_entries requested present =
     [(projector requested, projector present), (lab requested, lab present),
      (accessible requested, accessible present), (whiteboard requested, whiteboard present),
      (audio requested, audio present), (smartboard requested, smartboard present)]"

fun facilitiesMatch :: "(bool \<times> bool) list \<Rightarrow> bool" where
  "facilitiesMatch [] = True"
| "facilitiesMatch ((required, present) # rest) =
     (if required \<and> \<not> present then False else facilitiesMatch rest)"

text \<open>One iteration of the loop over \<^verbatim>\<open>roomsGraph\<close>: does the entry reach \<^verbatim>\<open>push\<close>?\<close>

definition suitable :: "app_state \<Rightarrow> request \<Rightarrow> string \<times> node \<Rightarrow> bool" where
  "suitable st requirements entry =
     (case entry of (roomId, rm) \<Rightarrow>
        if less_number (capacity rm) (req_capacity requirements) then False
        else if req_building requirements \<noteq> [] \<and> building rm \<noteq> req_building requirements then False
        else if \<not> facilitiesMatch (facility_entries (req_facilities requirements) (facilities rm)) then False
        else if \<not> checkAvailability st roomId (date requirements) (start_time requirements)
                   (end_time requirements) then False
        else True)"

definition suitableRooms :: "app_state \<Rightarrow> request \<Rightarrow> node list" where
  "suitableRooms st requirements = map snd (filter (suitable st requirements) (roomsGraph st))"

text \<open>The callback of \<^verbatim>\<open>reduce\<close>, which starts from the first element.\<close>

definition closer :: "number \<Rightarrow> node \<Rightarrow> node \<Rightarrow> node" where
  "closer requested best current =
     (let bestDiff = abs_number (minus_number (capacity best) requested);
          currentDiff = abs_number (minus_number (capacity current) requested)
      in if less_number currentDiff bestDiff then current else best)"

text \<open>
  \<^verbatim>\<open>generateBookingId()\<close>, on the decimal digits of \<^verbatim>\<open>Date.now()\<close> and the six
  characters drawn from \<^verbatim>\<open>Math.random()\<close>.
\<close>

definition generateBookingId :: "string \<Rightarrow> string \<Rightarrow> string" where
  "generateBookingId millis random = ''BK'' @ millis @ random"

text \<open>What one form submission reads from the clock and the random source.\<close>

record environment =
  request_log_time :: string
  booking_millis :: string
  booking_random :: string
  record_time :: string
  result_log_time :: string

text \<open>\<^verbatim>\<open>{ success: true, room, booking_id }\<close> or \<^verbatim>\<open>{ success: false, message }\<close>.\<close>

datatype allocation = Allocated node string | Not_allocated string

definition no_rooms_message :: string where
  "no_rooms_message = ''No rooms available matching your requirements. Try adjusting your criteria or selecting a different time slot.''"

definition allocateRoom :: "environment \<Rightarrow> request \<Rightarrow> app_state \<Rightarrow> allocation \<times> app_state" where
  "allocateRoom env requirements st0 =
     (let st = addLog (request_log_time env) ''info''
                 (''Processing allocation request for '' @ course_name requirements) st0
      in case suitableRooms st requirements of
           [] \<Rightarrow> (Not_allocated no_rooms_message, st)
         | first # rest \<Rightarrow>
             (Allocated (foldl (closer (req_capacity requirements)) first rest)
                (generateBookingId (booking_millis env) (booking_random env)), st))"

text \<open>
  What \<^verbatim>\<open>showResult\<close> is given by \<^verbatim>\<open>handleAllocationSubmit\<close>: an error with its title and
  message, or the success panel, built from the room, the date, the two times and the
  booking identifier.
\<close>

datatype display =
  Result_error string string
| Result_success node string string string string

text \<open>
  \<^verbatim>\<open>handleAllocationSubmit\<close> on the form data. The time check returns before anything else
  happens. Toasts, the dashboard refresh and the form reset only touch the page. The
  \<^verbatim>\<open>catch\<close> branch has no counterpart: on records of these types nothing in the
  \<^verbatim>\<open>try\<close> block throws.
\<close>

definition handleAllocationSubmit ::
    "environment \<Rightarrow> request \<Rightarrow> app_state \<Rightarrow> display \<times> app_state" where
  "handleAllocationSubmit env formData st =
     (if start_time formData \<ge> end_time formData
      then (Result_error ''Invalid Time'' ''End time must be after start time.'', st)
      else case allocateRoom env formData st of
          (Allocated rm bid, st1) \<Rightarrow>
            (let entry = \<lparr>course_name = course_name formData, instructor = instructor formData,
                    date = date formData, start_time = start_time formData,
                    end_time = end_time formData, req_capacity = req_capacity formData,
                    req_building = req_building formData,
                    req_facilities = req_facilities formData,
                    room = rm, booking_id = bid, booking_timestamp = record_time env\<rparr>;
                 schedules = schedulesArray st1 @ [entry];
                 st2 = st1\<lparr>schedulesArray := schedules, stored_schedules := Some schedules\<rparr>;
                 st3 = addLog (result_log_time env) ''success''
                         (''Successfully allocated '' @ building rm @ '' '' @ room_id rm
                            @ '' for '' @ course_name formData) st2
             in (Result_success rm (date formData) (start_time formData) (end_time formData) bid,
                 st3))
        | (Not_allocated msg, st1) \<Rightarrow>
            (Result_error ''Allocation Failed'' msg,
             addLog (result_log_time env) ''error''
               (''Failed to allocate room for '' @ course_name formData @ '': '' @ msg) st1))"

section \<open>Conflict detection\<close>

text \<open>
  \<^verbatim>\<open>detectConflicts()\<close>: the two nested index loops, pushing \<^verbatim>\<open>{ booking1, booking2 }\<close>.
  The function returns the list; the state is returned beside it as the function leaves it.
\<close>

definition detectConflicts :: "app_state \<Rightarrow> (booking \<times> booking) list \<times> app_state" where
  "detectConflicts st =
     (let n = length (schedulesArray st);
          conflicts =
            fold (\<lambda>i conflicts.
               fold (\<lambda>j conflicts.
                  (let b1 = schedulesArray st ! i;
                       b2 = schedulesArray st ! j
                   in if room_id (room b1) = room_id (room b2) \<and> date b1 = date b2
                      then (if \<not> (end_time b1 \<le> start_time b2 \<or> end_time b2 \<le> start_time b1)
                            then conflicts @ [(b1, b2)] else conflicts)
                      else conflicts))
                 [i + 1 ..< n] conflicts)
              [0 ..< n] []
      in (conflicts, st))"

section \<open>Loading, restoring and adding rooms\<close>

definition loadRooms :: "room fetched \<Rightarrow> app_state \<Rightarrow> app_state" where
  "loadRooms response st =
     buildRoomsGraph
       (case response of
          Fetched rooms \<Rightarrow>
            (let rs = (case rooms of Some l \<Rightarrow> l | None \<Rightarrow> [])
             in st\<lparr>allRooms := rs, stored_rooms := Some rs\<rparr>)
        | Fetch_failed \<Rightarrow>
            (case stored_rooms st of
               Some savedRooms \<Rightarrow> st\<lparr>allRooms := savedRooms\<rparr>
             | None \<Rightarrow> st))"

definition loadSchedule :: "booking fetched \<Rightarrow> app_state \<Rightarrow> app_state" where
  "loadSchedule response st =
     (case response of
        Fetched schedules \<Rightarrow>
          (let s = (case schedules of Some l \<Rightarrow> l | None \<Rightarrow> [])
           in st\<lparr>schedulesArray := s, stored_schedules := Some s\<rparr>)
      | Fetch_failed \<Rightarrow>
          (case stored_schedules st of
             Some savedSchedules \<Rightarrow> st\<lparr>schedulesArray := savedSchedules\<rparr>
           | None \<Rightarrow> st))"

definition sample_room ::
    "string \<Rightarrow> string \<Rightarrow> int \<Rightarrow> int \<Rightarrow> bool \<Rightarrow> bool \<Rightarrow> bool \<Rightarrow> bool \<Rightarrow> bool \<Rightarrow> bool \<Rightarrow> room" where
  "sample_room rid b c f pr la ac wh au sm =
     \<lparr>room_id = rid, building = b, capacity = Num c, floor_level = f,
      facilities = \<lparr>projector = pr, lab = la, accessible = ac, whiteboard = wh,
                    audio = au, smartboard = sm\<rparr>\<rparr>"

definition sample_rooms :: "room list" where
  "sample_rooms =
     [sample_room ''101'' ''Main'' 50 1 True False True True True False,
      sample_room ''102'' ''Main'' 30 1 True False True True False True,
      sample_room ''201'' ''Science'' 40 2 True True False True True False,
      sample_room ''301'' ''Engineering'' 60 3 True True True True True True,
      sample_room ''LAB-A'' ''Science'' 25 1 True True True False False True,
      sample_room ''401'' ''Engineering'' 100 4 True False True True True True,
      sample_room ''AUD-1'' ''Arts'' 200 1 True False True False True False]"

definition initializeSampleDataOffline :: "string \<Rightarrow> app_state \<Rightarrow> app_state" where
  "initializeSampleDataOffline now st =
     addLog now ''info'' ''Initialized with sample classroom data (offline mode)''
       (buildRoomsGraph (st\<lparr>allRooms := sample_rooms, stored_rooms := Some sample_rooms\<rparr>))"

text \<open>
  \<^verbatim>\<open>initializeOfflineMode()\<close>: the three items of the local cache are read first, then
  each one that is present replaces its part of the state.
\<close>

definition initializeOfflineMode :: "string \<Rightarrow> app_state \<Rightarrow> app_state" where
  "initializeOfflineMode now st =
     (let savedRooms = stored_rooms st;
          savedSchedules = stored_schedules st;
          savedLogs = stored_logs st;
          st1 = (case savedRooms of
                   Some rs \<Rightarrow> buildRoomsGraph (st\<lparr>allRooms := rs\<rparr>)
                 | None \<Rightarrow> initializeSampleDataOffline now st);
          st2 = (case savedSchedules of
                   Some s \<Rightarrow> st1\<lparr>schedulesArray := s\<rparr>
                 | None \<Rightarrow> st1);
          st3 = (case savedLogs of
                   Some l \<Rightarrow> st2\<lparr>logsQueue := l\<rparr>
                 | None \<Rightarrow> st2)
      in st3)"

text \<open>
  \<^verbatim>\<open>handleAddRoomSubmit\<close> on the room read from the form; the result is the toast shown.
\<close>

definition handleAddRoomSubmit :: "string \<Rightarrow> room \<Rightarrow> app_state \<Rightarrow> (string \<times> string) \<times> app_state" where
  "handleAddRoomSubmit now newRoom st =
     (if list_ex (\<lambda>r. room_id r = room_id newRoom \<and> building r = building newRoom) (allRooms st)
      then ((''Room already exists!'', ''error''), st)
      else (let rs = allRooms st @ [newRoom];
                st1 = buildRoomsGraph (st\<lparr>allRooms := rs, stored_rooms := Some rs\<rparr>);
                st2 = addLog now ''success''
                        (''Added new room: '' @ building newRoom @ '' '' @ room_id newRoom) st1
            in ((''Room added successfully!'', ''success''), st2)))"

section \<open>The graph of the visualizer\<close>

text \<open>
  A node of \<^verbatim>\<open>RoomGraphVisualizer\<close>. Its position and colour, computed from the canvas
  size, are drawing data that the adjacency code never reads; they are left out.
\<close>

record vertex =
  vertex_id :: string
  vertex_building :: string
  vertex_capacity :: number
  vertex_facilities :: facility_flags
  vertex_adjacentRooms :: "string list"

record edge =
  edge_from :: nat
  edge_to :: nat
  edge_type :: string
  weight :: nat

record visualizer =
  nodes :: "vertex list"
  edges :: "edge list"

definition new_vertex :: "room \<Rightarrow> vertex" where
  "new_vertex r = \<lparr>vertex_id = room_id r, vertex_building = building r,
     vertex_capacity = capacity r, vertex_facilities = facilities r,
     vertex_adjacentRooms = []\<rparr>"

text \<open>\<^verbatim>\<open>this.nodes[i].adjacentRooms.push(x)\<close>; the index is always in range.\<close>

definition push_vertex :: "nat \<Rightarrow> string \<Rightarrow> vertex list \<Rightarrow> vertex list" where
  "push_vertex i x ns =
     ns[i := (ns ! i)\<lparr>vertex_adjacentRooms := vertex_adjacentRooms (ns ! i) @ [x]\<rparr>]"

text \<open>The body of the inner loop of \<^verbatim>\<open>buildGraph\<close>.\<close>

definition link :: "room list \<Rightarrow> nat \<Rightarrow> nat \<Rightarrow> visualizer \<Rightarrow> visualizer" where
  "link rooms i j v =
     (let room1 = rooms ! i;
          room2 = rooms ! j
      in if building room1 = building room2
         then v\<lparr>edges := edges v @ [\<lparr>edge_from = i, edge_to = j, edge_type = ''building'', weight = 2\<rparr>],
                nodes := push_vertex j (room_id room1) (push_vertex i (room_id room2) (nodes v))\<rparr>
         else if similarCapacity (capacity room1) (capacity room2)
         then (let es = edges v @ [\<lparr>edge_from = i, edge_to = j, edge_type = ''capacity'', weight = 1\<rparr>];
                   ns1 = (if room_id room2 \<in> set (vertex_adjacentRooms (nodes v ! i)) then nodes v
                          else push_vertex i (room_id room2) (nodes v));
                   ns2 = (if room_id room1 \<in> set (vertex_adjacentRooms (ns1 ! j)) then ns1
                          else push_vertex j (room_id room1) ns1)
               in v\<lparr>edges := es, nodes := ns2\<rparr>)
         else v)"

definition buildGraph :: "room list \<Rightarrow> visualizer" where
  "buildGraph rooms =
     (if rooms = [] then \<lparr>nodes = [], edges = []\<rparr>
      else fold (\<lambda>i v. fold (\<lambda>j v. link rooms i j v) [i + 1 ..< length rooms] v)
             [0 ..< length rooms] \<lparr>nodes = map new_vertex rooms, edges = []\<rparr>)"

section \<open>Auxiliary notions and example data\<close>

text \<open>A sequence of \<^verbatim>\<open>addLog\<close> calls, each given as (time of the call, type, message).\<close>

definition addLogs :: "(string \<times> string \<times> string) list \<Rightarrow> app_state \<Rightarrow> app_state" where
  "addLogs entries st = fold (\<lambda>(now, type_arg, msg). addLog now type_arg msg) entries st"

text \<open>The entry that one such call builds.\<close>

definition entry_of :: "string \<times> string \<times> string \<Rightarrow> log_entry" where
  "entry_of e = (case e of (now, type_arg, msg) \<Rightarrow> \<lparr>log_type = type_arg, message = msg, timestamp = now\<rparr>)"

definition example_log :: log_entry where
  "example_log = \<lparr>log_type = ''info'', message = ''started'', timestamp = ''2025-01-01T08:00:00.000Z''\<rparr>"

definition example_state_over :: app_state where
  "example_state_over = loadLogs (Fetched (Some (replicate 101 example_log))) initial_state"

definition example_entries :: "(string \<times> string \<times> string) list" where
  "example_entries = (''t0'', ''info'', ''first'') # replicate 99 (''t1'', ''info'', ''middle'') @ [(''t2'', ''info'', ''last'')]"

text \<open>An example request, its booking in the first sample room, and a ledger holding it.\<close>

definition no_flags :: facility_flags where
  "no_flags = \<lparr>projector = False, lab = False, accessible = False, whiteboard = False,
     audio = False, smartboard = False\<rparr>"

definition example_request :: request where
  "example_request = \<lparr>course_name = ''Algebra'', instructor = ''Noether'',
     date = ''2025-01-01'', start_time = ''09:00'', end_time = ''10:00'',
     req_capacity = Num 48, req_building = [], req_facilities = no_flags\<rparr>"

definition book :: "request \<Rightarrow> node \<Rightarrow> booking" where
  "book r n = \<lparr>course_name = course_name r, instructor = instructor r, date = date r,
     start_time = start_time r, end_time = end_time r, req_capacity = req_capacity r,
     req_building = req_building r, req_facilities = req_facilities r,
     room = n, booking_id = ''BK1735689600000A1B2C3'',
     booking_timestamp = ''2025-01-01T00:00:00.000Z''\<rparr>"

definition example_booking :: booking where
  "example_booking = book example_request (new_node (hd sample_rooms))"

definition example_ledger :: app_state where
  "example_ledger = initial_state\<lparr>schedulesArray := [example_booking]\<rparr>"

definition empty_interval_booking :: booking where
  "empty_interval_booking = example_booking\<lparr>start_time := ''09:00'', end_time := ''09:00''\<rparr>"

text \<open>Example readings of the clock, and the state holding the sample rooms.\<close>

definition example_environment :: environment where
  "example_environment = \<lparr>request_log_time = ''2025-01-01T08:00:00.000Z'',
     booking_millis = ''1735718400000'', booking_random = ''X7K2QD'',
     record_time = ''2025-01-01T08:00:00.010Z'', result_log_time = ''2025-01-01T08:00:00.020Z''\<rparr>"




text \<open>
  The room fields of a node, and a map with the adjacency lists forgotten; the keys and
  the room fields are what the edge pass leaves alone.
\<close>

definition room_of :: "node \<Rightarrow> room" where
  "room_of n = \<lparr>room_id = room_id n, building = building n, capacity = capacity n,
     floor_level = floor_level n, facilities = facilities n\<rparr>"

definition frame :: "rooms_map \<Rightarrow> (string \<times> room) list" where
  "frame g = map (\<lambda>(k, n). (k, room_of n)) g"

text \<open>Every entry is stored under the \<^verbatim>\<open>room_id\<close> of its node.\<close>

definition keyed :: "rooms_map \<Rightarrow> bool" where
  "keyed g \<longleftrightarrow> (\<forall>(k, n) \<in> set g. room_id n = k)"


text \<open>
  Three rooms of equal capacity, the first and the third sharing the identifier ``1'' in
  different buildings, and a request for exactly that capacity.
\<close>

definition shared_id_rooms :: "room list" where
  "shared_id_rooms =
     [sample_room ''1'' ''Main'' 50 1 False False False False False False,
      sample_room ''2'' ''Main'' 50 1 False False False False False False,
      sample_room ''1'' ''Science'' 50 1 False False False False False False]"

definition shared_id_state :: app_state where
  "shared_id_state = initial_state\<lparr>allRooms := shared_id_rooms\<rparr>"

definition tie_request :: request where
  "tie_request = example_request\<lparr>req_capacity := Num 50\<rparr>"

text \<open>The room fields of the node that an allocation returned, if it returned one.\<close>

definition allocated_room :: "allocation \<Rightarrow> room option" where
  "allocated_room a = (case a of Allocated rm bid \<Rightarrow> Some (room_of rm) | Not_allocated msg \<Rightarrow> None)"

text \<open>The same store with one booking, made for the room ``1'' of the Main building.\<close>

definition shared_id_booked :: app_state where
  "shared_id_booked = shared_id_state\<lparr>schedulesArray :=
     [book tie_request (new_node (hd shared_id_rooms))]\<rparr>"

text \<open>
  The two rules together, and what one pair \<open>i < j\<close> adds to the adjacency set stored
  under a key.
\<close>

definition related :: "room \<Rightarrow> room \<Rightarrow> bool" where
  "related a b \<longleftrightarrow> building a = building b \<or> similarCapacity (capacity a) (capacity b)"

definition contribution :: "room \<Rightarrow> room \<Rightarrow> string \<Rightarrow> string set" where
  "contribution r1 r2 k =
     (if related r1 r2 \<and> k = room_id r1 then {room_id r2} else {})
     \<union> (if related r1 r2 \<and> k = room_id r2 then {room_id r1} else {})"

text \<open>
  The pairs of indexed rooms that the two nested \<^verbatim>\<open>forEach\<close> loops act on, in their
  order, the action on one pair, and the unordered pair of identifiers of a pair.
\<close>

definition index_pairs :: "room list \<Rightarrow> ((nat \<times> room) \<times> (nat \<times> room)) list" where
  "index_pairs rs =
     filter (\<lambda>p. fst (fst p) < fst (snd p)) (List.product (enumerate 0 rs) (enumerate 0 rs))"

definition connect_pair :: "(nat \<times> room) \<times> (nat \<times> room) \<Rightarrow> rooms_map \<Rightarrow> rooms_map" where
  "connect_pair p g = connect (snd (fst p)) (snd (snd p)) g"


text \<open>
  The adjacency set of the visualizer's node at an index, what one pair of indices adds
  to it, and the invariant that the nodes are those of the rooms, in order.
\<close>

definition vertex_adjacent :: "visualizer \<Rightarrow> nat \<Rightarrow> string set" where
  "vertex_adjacent v i = set (vertex_adjacentRooms (nodes v ! i))"

definition index_contribution :: "room list \<Rightarrow> nat \<Rightarrow> nat \<Rightarrow> nat \<Rightarrow> string set" where
  "index_contribution rs i j k =
     (if related (rs ! i) (rs ! j) \<and> k = i then {room_id (rs ! j)} else {})
     \<union> (if related (rs ! i) (rs ! j) \<and> k = j then {room_id (rs ! i)} else {})"

definition laid_out :: "room list \<Rightarrow> visualizer \<Rightarrow> bool" where
  "laid_out rs v \<longleftrightarrow> map vertex_id (nodes v) = map room_id rs"

text \<open>The rooms graph is the one derived from the current room store.\<close>

definition graph_current :: "app_state \<Rightarrow> bool" where
  "graph_current st \<longleftrightarrow> roomsGraph st = add_edges (allRooms st) (add_nodes (allRooms st))"








section \<open>Verified properties\<close>

subsection \<open>The log queue\<close>

lemma logsQueue_addLog:
  "logsQueue (addLog now t m st) =
     (if length (logsQueue st) \<ge> 100
      then butlast (\<lparr>log_type = t, message = m, timestamp = now\<rparr> # logsQueue st)
      else \<lparr>log_type = t, message = m, timestamp = now\<rparr> # logsQueue st)"
  by (simp add: addLog_def Let_def)

lemma logsQueue_addLog_take:
  assumes "length (logsQueue st) \<le> 100"
  shows "logsQueue (addLog now t m st) = take 100 (\<lparr>log_type = t, message = m, timestamp = now\<rparr> # logsQueue st)"
proof (cases "length (logsQueue st) = 100")
  case True
  then show ?thesis by (simp add: logsQueue_addLog butlast_conv_take)
next
  case False
  with assms have "length (logsQueue st) < 100" by simp
  then show ?thesis by (simp add: logsQueue_addLog)
qed

lemma logsQueue_addLogs:
  "length (logsQueue st) \<le> 100 \<Longrightarrow>
   logsQueue (addLogs es st) = take 100 (rev (map entry_of es) @ logsQueue st)"
proof (induction es arbitrary: st)
  case Nil
  then show ?case by (simp add: addLogs_def)
next
  case (Cons e es)
  obtain now t m where e: "e = (now, t, m)" by (cases e)
  let ?st = "addLog now t m st"
  have q: "logsQueue ?st = take 100 (entry_of e # logsQueue st)"
    using logsQueue_addLog_take [OF Cons.prems] by (simp add: e entry_of_def)
  then have len: "length (logsQueue ?st) \<le> 100" by simp
  have "logsQueue (addLogs (e # es) st) = logsQueue (addLogs es ?st)"
    by (simp add: addLogs_def e)
  also have "\<dots> = take 100 (rev (map entry_of es) @ logsQueue ?st)"
    by (rule Cons.IH [OF len])
  also have "\<dots> = take 100 (rev (map entry_of es) @ entry_of e # logsQueue st)"
    unfolding q by (simp add: take_Cons' min_def) 
  finally show ?case by simp
qed


text \<open>
  C6, as stated, fails: the queue is not bounded by 100 in every state, since loading
  installs whatever sequence was fetched. Here a fetched sequence of 101 entries becomes
  the queue.
\<close>

theorem log_queue_bound_counterexample:
  "\<not> length (logsQueue (loadLogs (Fetched (Some (replicate 101 example_log))) initial_state)) \<le> 100"
  by (simp add: loadLogs_def initial_state_def Let_def)

text \<open>
  C6, amended: \<^const>\<open>addLog\<close> puts the new timestamped entry at the front and, when the
  resulting size exceeds 100, evicts the last (oldest) entry; so a queue of at most 100
  entries has at most 100 after \<^const>\<open>addLog\<close>, and a queue changed by \<^const>\<open>addLog\<close>
  alone from the empty one never exceeds 100. After 101 insertions into the empty queue
  it holds the insertions 2 to 101, newest first: the 101st is at the front and the
  first is gone.
\<close>

theorem addLog_keeps_bound:
  "logsQueue (addLog now t m st) =
     (let unshifted = \<lparr>log_type = t, message = m, timestamp = now\<rparr> # logsQueue st
      in if length unshifted > 100 then butlast unshifted else unshifted)
   \<and> (length (logsQueue st) \<le> 100 \<longrightarrow> length (logsQueue (addLog now t m st)) \<le> 100)
   \<and> length (logsQueue (addLogs es initial_state)) \<le> 100
   \<and> (length es = 101 \<longrightarrow>
        logsQueue (addLogs es initial_state) = rev (map entry_of (tl es))
        \<and> hd (logsQueue (addLogs es initial_state)) = entry_of (last es)
        \<and> (entry_of (hd es) \<notin> set (map entry_of (tl es)) \<longrightarrow>
             entry_of (hd es) \<notin> set (logsQueue (addLogs es initial_state))))"
proof -
  have init: "length (logsQueue initial_state) \<le> 100" "logsQueue initial_state = []"
    by (simp_all add: initial_state_def)
  have a: "logsQueue (addLog now t m st) =
     (let unshifted = \<lparr>log_type = t, message = m, timestamp = now\<rparr> # logsQueue st
      in if length unshifted > 100 then butlast unshifted else unshifted)"
    by (simp add: addLog_def Let_def)
  have b: "length (logsQueue st) \<le> 100 \<longrightarrow> length (logsQueue (addLog now t m st)) \<le> 100"
    by (simp add: logsQueue_addLog)
  have q: "logsQueue (addLogs es initial_state) = take 100 (rev (map entry_of es))"
    using logsQueue_addLogs [OF init(1), of es] by (simp add: init(2))
  have c: "length (logsQueue (addLogs es initial_state)) \<le> 100"
    by (simp add: q)
  have d: "logsQueue (addLogs es initial_state) = rev (map entry_of (tl es))
        \<and> hd (logsQueue (addLogs es initial_state)) = entry_of (last es)
        \<and> (entry_of (hd es) \<notin> set (map entry_of (tl es)) \<longrightarrow>
             entry_of (hd es) \<notin> set (logsQueue (addLogs es initial_state)))"
    if len: "length es = 101"
  proof -
    from len obtain e es' where es: "es = e # es'" and len': "length es' = 100"
      by (cases es) auto
    have q': "logsQueue (addLogs (e # es') initial_state) = rev (map entry_of es')"
      using q by (simp add: es len')
    have ne: "es' \<noteq> []" using len' by auto
    have "hd (rev (map entry_of es')) = entry_of (last es')"
      using ne by (simp add: hd_rev last_map)
    then show ?thesis using ne unfolding es by (simp add: q')
  qed
  from a b c d show ?thesis by blast
qed

theorem addLog_keeps_bound_witness:
  "length (logsQueue initial_state) \<le> 100
   \<and> length (logsQueue (addLog ''t0'' ''info'' ''first'' initial_state)) \<le> 100
   \<and> length example_entries = 101
   \<and> hd (logsQueue (addLogs example_entries initial_state)) = \<lparr>log_type = ''info'', message = ''last'', timestamp = ''t2''\<rparr>
   \<and> \<lparr>log_type = ''info'', message = ''first'', timestamp = ''t0''\<rparr> \<notin> set (logsQueue (addLogs example_entries initial_state))"
  using addLog_keeps_bound [of "''t0''" "''info''" "''first''" initial_state example_entries]
  by (simp add: example_entries_def entry_of_def initial_state_def)

text \<open>
  C10: the bound is enforced by \<^const>\<open>addLog\<close> only. \<^const>\<open>loadLogs\<close> installs the
  fetched sequence, or the cached one when the fetch fails, and
  \<^const>\<open>initializeOfflineMode\<close> installs the cached one, each unchanged and of any
  length; on a queue of more than 100 entries \<^const>\<open>addLog\<close> adds one entry and removes
  one, so the queue keeps its length and stays over the bound.
\<close>

theorem load_paths_ignore_bound:
  "logsQueue (loadLogs (Fetched (Some l)) st) = l
   \<and> (stored_logs st = Some l \<longrightarrow> logsQueue (loadLogs Fetch_failed st) = l)
   \<and> (stored_logs st = Some l \<longrightarrow> logsQueue (initializeOfflineMode now st) = l)
   \<and> (length (logsQueue st) > 100 \<longrightarrow>
        logsQueue (addLog now t m st)
          = butlast (\<lparr>log_type = t, message = m, timestamp = now\<rparr> # logsQueue st)
        \<and> length (logsQueue (addLog now t m st)) = length (logsQueue st)
        \<and> length (logsQueue (addLog now t m st)) > 100)"
  by (simp add: loadLogs_def initializeOfflineMode_def Let_def logsQueue_addLog split: option.splits)

theorem load_paths_ignore_bound_witness:
  "stored_logs (initial_state\<lparr>stored_logs := Some (replicate 101 example_log)\<rparr>) = Some (replicate 101 example_log)
   \<and> length (logsQueue (loadLogs Fetch_failed (initial_state\<lparr>stored_logs := Some (replicate 101 example_log)\<rparr>))) = 101
   \<and> length (logsQueue (initializeOfflineMode ''t0'' (initial_state\<lparr>stored_logs := Some (replicate 101 example_log)\<rparr>))) = 101
   \<and> length (logsQueue example_state_over) > 100
   \<and> length (logsQueue (addLog ''t1'' ''info'' ''next'' example_state_over)) = 101"
  using load_paths_ignore_bound [where l = "replicate 101 example_log"
          and st = "initial_state\<lparr>stored_logs := Some (replicate 101 example_log)\<rparr>"
          and now = "''t0''"]
        load_paths_ignore_bound [where l = "replicate 101 example_log"
          and st = example_state_over and now = "''t1''" and t = "''info''" and m = "''next''"]
  by (simp add: example_state_over_def loadLogs_def Let_def)

subsection \<open>The capacity rule on integers\<close>

text \<open>
  On two integers the capacity test says that the maximum is not zero and the quotient of
  the absolute difference by the maximum is at most a quarter; with \<^verbatim>\<open>NaN\<close> on either
  side it fails.
\<close>

lemma similarCapacity_Num:
  "similarCapacity (Num a) (Num b) \<longleftrightarrow>
     max a b \<noteq> 0 \<and> real_of_int \<bar>a - b\<bar> / real_of_int (max a b) \<le> 0.25"
  by (simp add: similarCapacity_def Let_def)

lemma similarCapacity_NaN [simp]:
  "similarCapacity NaN c = False" "similarCapacity c NaN = False"
  by (cases c; simp add: similarCapacity_def Let_def)+


lemma quarter_int:
  "max a b \<noteq> 0 \<and> real_of_int \<bar>a - b\<bar> / real_of_int (max a b) \<le> 0.25 \<longleftrightarrow>
     (if max a b = 0 then False
      else if max a b < 0 then True
      else 4 * \<bar>a - b\<bar> \<le> max a b)"
proof -
  have neg: "real_of_int \<bar>a - b\<bar> / real_of_int (max a b) \<le> 0.25" if "max a b < 0"
  proof -
    have "real_of_int \<bar>a - b\<bar> / real_of_int (max a b) \<le> 0"
      using that by (simp add: divide_le_0_iff)
    moreover have "(0::real) \<le> 0.25" by simp
    ultimately show ?thesis by (rule order_trans)
  qed
  have pos: "real_of_int \<bar>a - b\<bar> / real_of_int (max a b) \<le> 0.25 \<longleftrightarrow> 4 * \<bar>a - b\<bar> \<le> max a b"
    if "max a b > 0"
  proof -
    have "real_of_int \<bar>a - b\<bar> / real_of_int (max a b) \<le> 0.25
            \<longleftrightarrow> real_of_int \<bar>a - b\<bar> \<le> 0.25 * real_of_int (max a b)"
      using that by (simp add: pos_divide_le_eq)
    also have "\<dots> \<longleftrightarrow> real_of_int (4 * \<bar>a - b\<bar>) \<le> real_of_int (max a b)"
      by (simp add: mult.commute)
    also have "\<dots> \<longleftrightarrow> 4 * \<bar>a - b\<bar> \<le> max a b"
      by (rule of_int_le_iff)
    finally show ?thesis .
  qed
  show ?thesis
    using neg pos by (cases "max a b" "0::int" rule: linorder_cases) auto
qed

lemma similarCapacity_code [code]:
  "similarCapacity c1 c2 =
     (case c1 of NaN \<Rightarrow> False
      | Num a \<Rightarrow> (case c2 of NaN \<Rightarrow> False
          | Num b \<Rightarrow> (if max a b = 0 then False
                       else if max a b < 0 then True
                       else 4 * \<bar>a - b\<bar> \<le> max a b)))"
proof (cases c1)
  case NaN
  then show ?thesis by simp
next
  case a: (Num a)
  show ?thesis
  proof (cases c2)
    case NaN
    with a show ?thesis by simp
  next
    case b: (Num b)
    show ?thesis
      unfolding a b similarCapacity_Num quarter_int by (simp only: number.case)
  qed
qed

subsection \<open>Availability\<close>

text \<open>
  C3: \<^const>\<open>checkAvailability\<close> is false exactly when some booking of the ledger has the
  same \<^verbatim>\<open>room_id\<close> and date and overlaps the requested interval, that is, unless the
  request ends at or before the booking's start or starts at or after its end. With a
  booking of room 101 on 2025-01-01 from 09:00 to 10:00 in the ledger, the request 09:30 to
  10:30 is unavailable; when it is the only booking, the abutting request 10:00 to 11:00
  is available.
\<close>

theorem checkAvailability_half_open:
  "((\<not> checkAvailability st roomId d startTime endTime) \<longleftrightarrow>
      (\<exists>b \<in> set (schedulesArray st). room_id (room b) = roomId \<and> date b = d
          \<and> \<not> (endTime \<le> start_time b \<or> startTime \<ge> end_time b)))
   \<and> (\<forall>b \<in> set (schedulesArray st). room_id (room b) = ''101'' \<and> date b = ''2025-01-01''
          \<and> start_time b = ''09:00'' \<and> end_time b = ''10:00'' \<longrightarrow>
        \<not> checkAvailability st ''101'' ''2025-01-01'' ''09:30'' ''10:30'')
   \<and> (\<forall>b. schedulesArray st = [b] \<and> room_id (room b) = ''101'' \<and> date b = ''2025-01-01''
          \<and> start_time b = ''09:00'' \<and> end_time b = ''10:00'' \<longrightarrow>
        checkAvailability st ''101'' ''2025-01-01'' ''10:00'' ''11:00'')"
proof -
  have general: "(\<not> checkAvailability st roomId d startTime endTime) \<longleftrightarrow>
      (\<exists>b \<in> set (schedulesArray st). room_id (room b) = roomId \<and> date b = d
          \<and> \<not> (endTime \<le> start_time b \<or> startTime \<ge> end_time b))"
    for roomId d startTime endTime
    by (auto simp add: checkAvailability_def list_ex_iff)
  have taken: "\<not> checkAvailability st ''101'' ''2025-01-01'' ''09:30'' ''10:30''"
    if "b \<in> set (schedulesArray st)" "room_id (room b) = ''101''" "date b = ''2025-01-01''"
      "start_time b = ''09:00''" "end_time b = ''10:00''" for b
    unfolding general using that by (intro bexI [of _ b]) simp_all
  have free: "checkAvailability st ''101'' ''2025-01-01'' ''10:00'' ''11:00''"
    if "schedulesArray st = [b]" "room_id (room b) = ''101''" "date b = ''2025-01-01''"
      "start_time b = ''09:00''" "end_time b = ''10:00''" for b
    using that by (simp add: checkAvailability_def)
  from general taken free show ?thesis by blast
qed

theorem checkAvailability_half_open_witness:
  "schedulesArray example_ledger = [example_booking]
   \<and> \<not> checkAvailability example_ledger ''101'' ''2025-01-01'' ''09:30'' ''10:30''
   \<and> checkAvailability example_ledger ''101'' ''2025-01-01'' ''10:00'' ''11:00''"
  using checkAvailability_half_open [of example_ledger]
  by (simp add: example_ledger_def example_booking_def book_def example_request_def
        new_node_def sample_rooms_def sample_room_def)

subsection \<open>Conflict detection\<close>

lemma fold_if_snoc:
  "fold (\<lambda>j acc. if P j then acc @ [f j] else acc) js acc = acc @ map f (filter P js)"
  by (induction js arbitrary: acc) simp_all

lemma fold_append_each:
  "fold (\<lambda>i acc. acc @ g i) is acc = acc @ concat (map g is)"
  by (induction "is" arbitrary: acc) simp_all

lemma set_concat_map_filter:
  "p \<in> set (concat (map (\<lambda>i. map (f i) (filter (P i) (js i))) is)) \<longleftrightarrow>
     (\<exists>i \<in> set is. \<exists>j \<in> set (js i). P i j \<and> p = f i j)"
  by auto

lemma detectConflicts_eq:
  "fst (detectConflicts st) =
     concat (map (\<lambda>i. map (\<lambda>j. (schedulesArray st ! i, schedulesArray st ! j))
        (filter (\<lambda>j. room_id (room (schedulesArray st ! i)) = room_id (room (schedulesArray st ! j))
                  \<and> date (schedulesArray st ! i) = date (schedulesArray st ! j)
                  \<and> \<not> (end_time (schedulesArray st ! i) \<le> start_time (schedulesArray st ! j)
                        \<or> end_time (schedulesArray st ! j) \<le> start_time (schedulesArray st ! i)))
           [i + 1 ..< length (schedulesArray st)]))
        [0 ..< length (schedulesArray st)])"
proof -
  let ?s = "schedulesArray st"
  let ?P = "\<lambda>i j. room_id (room (?s ! i)) = room_id (room (?s ! j)) \<and> date (?s ! i) = date (?s ! j)
                  \<and> \<not> (end_time (?s ! i) \<le> start_time (?s ! j) \<or> end_time (?s ! j) \<le> start_time (?s ! i))"
  have inner: "(\<lambda>j conflicts.
                  (let b1 = ?s ! i; b2 = ?s ! j
                   in if room_id (room b1) = room_id (room b2) \<and> date b1 = date b2
                      then (if \<not> (end_time b1 \<le> start_time b2 \<or> end_time b2 \<le> start_time b1)
                            then conflicts @ [(b1, b2)] else conflicts)
                      else conflicts))
        = (\<lambda>j acc. if ?P i j then acc @ [(?s ! i, ?s ! j)] else acc)" for i
    by (auto simp add: Let_def fun_eq_iff)
  show ?thesis
    unfolding detectConflicts_def Let_def fst_conv
    unfolding inner [unfolded Let_def] fold_if_snoc fold_append_each
    by simp
qed


text \<open>
  C5, as stated, fails for two identical bookings whose interval is empty: with start
  and end both 09:00 neither booking ends after the other starts, and no pair is
  reported.
\<close>

theorem detectConflicts_identical_counterexample:
  "start_time empty_interval_booking = end_time empty_interval_booking
   \<and> fst (detectConflicts (initial_state\<lparr>schedulesArray :=
          [empty_interval_booking, empty_interval_booking]\<rparr>)) = []"
  by (simp add: detectConflicts_eq empty_interval_booking_def upt_rec [of 0] upt_rec [of 1]
        upt_rec [of 2])

text \<open>
  C5, amended: \<^const>\<open>detectConflicts\<close> returns, in the order of the two loops and once
  each, exactly the pairs of ledger records at positions \<open>i < j\<close> that have the same
  \<^verbatim>\<open>room_id\<close> and date and overlap under the half-open rule, and leaves the state as
  it is. On an empty or single-entry ledger the result is empty. On a ledger of two
  bookings of the same room and date with the same interval, whose start is before its
  end, the result is that one pair.
\<close>

theorem detectConflicts_pairs:
  "fst (detectConflicts st) =
     concat (map (\<lambda>i. map (\<lambda>j. (schedulesArray st ! i, schedulesArray st ! j))
        (filter (\<lambda>j. room_id (room (schedulesArray st ! i)) = room_id (room (schedulesArray st ! j))
                  \<and> date (schedulesArray st ! i) = date (schedulesArray st ! j)
                  \<and> \<not> (end_time (schedulesArray st ! i) \<le> start_time (schedulesArray st ! j)
                        \<or> end_time (schedulesArray st ! j) \<le> start_time (schedulesArray st ! i)))
           [i + 1 ..< length (schedulesArray st)]))
        [0 ..< length (schedulesArray st)])
   \<and> (p \<in> set (fst (detectConflicts st)) \<longleftrightarrow>
        (\<exists>i j. i < j \<and> j < length (schedulesArray st)
           \<and> p = (schedulesArray st ! i, schedulesArray st ! j)
           \<and> room_id (room (schedulesArray st ! i)) = room_id (room (schedulesArray st ! j))
           \<and> date (schedulesArray st ! i) = date (schedulesArray st ! j)
           \<and> \<not> (end_time (schedulesArray st ! i) \<le> start_time (schedulesArray st ! j)
                 \<or> end_time (schedulesArray st ! j) \<le> start_time (schedulesArray st ! i))))
   \<and> snd (detectConflicts st) = st
   \<and> (length (schedulesArray st) \<le> 1 \<longrightarrow> fst (detectConflicts st) = [])
   \<and> (schedulesArray st = [b1, b2] \<and> room_id (room b1) = room_id (room b2) \<and> date b1 = date b2
        \<and> start_time b1 = start_time b2 \<and> end_time b1 = end_time b2
        \<and> start_time b1 < end_time b1 \<longrightarrow>
        fst (detectConflicts st) = [(b1, b2)])"
proof -
  have mem: "p \<in> set (fst (detectConflicts st)) \<longleftrightarrow>
        (\<exists>i j. i < j \<and> j < length (schedulesArray st)
           \<and> p = (schedulesArray st ! i, schedulesArray st ! j)
           \<and> room_id (room (schedulesArray st ! i)) = room_id (room (schedulesArray st ! j))
           \<and> date (schedulesArray st ! i) = date (schedulesArray st ! j)
           \<and> \<not> (end_time (schedulesArray st ! i) \<le> start_time (schedulesArray st ! j)
                 \<or> end_time (schedulesArray st ! j) \<le> start_time (schedulesArray st ! i)))"
  proof -
    define pr where "pr = (\<lambda>i j. (schedulesArray st ! i, schedulesArray st ! j))"
    define P where "P = (\<lambda>i j. room_id (room (schedulesArray st ! i)) = room_id (room (schedulesArray st ! j))
           \<and> date (schedulesArray st ! i) = date (schedulesArray st ! j)
           \<and> \<not> (end_time (schedulesArray st ! i) \<le> start_time (schedulesArray st ! j)
                 \<or> end_time (schedulesArray st ! j) \<le> start_time (schedulesArray st ! i)))"
    define n where "n = length (schedulesArray st)"
    have "fst (detectConflicts st) = concat (map (\<lambda>i. map (pr i) (filter (P i) [i + 1 ..< n])) [0 ..< n])"
      unfolding detectConflicts_eq pr_def P_def n_def ..
    then have "p \<in> set (fst (detectConflicts st)) \<longleftrightarrow>
            (\<exists>i \<in> set [0 ..< n]. \<exists>j \<in> set [i + 1 ..< n]. P i j \<and> p = pr i j)"
      by (simp only: set_concat_map_filter)
    also have "\<dots> \<longleftrightarrow> (\<exists>i j. i < j \<and> j < n \<and> p = pr i j \<and> P i j)"
    proof
      assume "\<exists>i \<in> set [0 ..< n]. \<exists>j \<in> set [i + 1 ..< n]. P i j \<and> p = pr i j"
      then obtain i j where "i \<in> set [0 ..< n]" "j \<in> set [i + 1 ..< n]" "P i j" "p = pr i j"
        by blast
      moreover from this have "i < j" "j < n" by simp_all
      ultimately show "\<exists>i j. i < j \<and> j < n \<and> p = pr i j \<and> P i j"
        by blast
    next
      assume "\<exists>i j. i < j \<and> j < n \<and> p = pr i j \<and> P i j"
      then obtain i j where ij: "i < j" "j < n" "p = pr i j" "P i j"
        by blast
      then have "i \<in> set [0 ..< n]" "j \<in> set [i + 1 ..< n]"
        by simp_all
      with ij show "\<exists>i \<in> set [0 ..< n]. \<exists>j \<in> set [i + 1 ..< n]. P i j \<and> p = pr i j"
        by blast
    qed
    finally show ?thesis unfolding pr_def P_def n_def .
  qed
  have unchanged: "snd (detectConflicts st) = st"
    by (simp add: detectConflicts_def Let_def)
  have small: "fst (detectConflicts st) = []" if "length (schedulesArray st) \<le> 1"
  proof (cases "schedulesArray st")
    case Nil
    then show ?thesis by (simp add: detectConflicts_eq)
  next
    case (Cons b bs)
    with that have "bs = []" by simp
    with Cons show ?thesis by (simp add: detectConflicts_eq)
  qed
  have two: "fst (detectConflicts st) = [(b1, b2)]"
    if "schedulesArray st = [b1, b2]" "room_id (room b1) = room_id (room b2)" "date b1 = date b2"
       "start_time b1 = start_time b2" "end_time b1 = end_time b2" "start_time b1 < end_time b1"
    using that
    by (simp add: detectConflicts_eq upt_rec [of 0] upt_rec [of 1] upt_rec [of 2] not_le)
  from detectConflicts_eq [of st] mem unchanged small two show ?thesis by blast
qed

theorem detectConflicts_pairs_witness:
  "length (schedulesArray example_ledger) \<le> 1
   \<and> fst (detectConflicts example_ledger) = []
   \<and> start_time example_booking < end_time example_booking
   \<and> fst (detectConflicts (initial_state\<lparr>schedulesArray := [example_booking, example_booking]\<rparr>))
       = [(example_booking, example_booking)]
   \<and> (example_booking, example_booking) \<in> set (fst (detectConflicts
         (initial_state\<lparr>schedulesArray := [example_booking, example_booking]\<rparr>)))"
  using detectConflicts_pairs [of example_ledger]
        detectConflicts_pairs [of "initial_state\<lparr>schedulesArray := [example_booking, example_booking]\<rparr>"
          _ example_booking example_booking]
  by (simp add: example_ledger_def example_booking_def book_def example_request_def)

subsection \<open>Failures of a submission\<close>

lemma addLog_fields [simp]:
  "roomsGraph (addLog now t m st) = roomsGraph st"
  "schedulesArray (addLog now t m st) = schedulesArray st"
  "allRooms (addLog now t m st) = allRooms st"
  by (simp_all add: addLog_def Let_def)

lemma checkAvailability_addLog [simp]:
  "checkAvailability (addLog now t m st) = checkAvailability st"
  by (simp add: checkAvailability_def fun_eq_iff)

lemma suitable_addLog [simp]:
  "suitable (addLog now t m st) = suitable st"
  by (simp add: suitable_def fun_eq_iff)

lemma suitableRooms_addLog [simp]:
  "suitableRooms (addLog now t m st) requirements = suitableRooms st requirements"
  by (simp add: suitableRooms_def)




subsection \<open>Keys and room fields of the rooms graph\<close>

lemma room_of_new_node [simp]: "room_of (new_node r) = r"
  by (simp add: room_of_def new_node_def)

lemma room_of_adjacentRooms_update [simp]:
  "room_of (n\<lparr>adjacentRooms := xs\<rparr>) = room_of n"
  by (simp add: room_of_def)

lemma room_of_fields [simp]:
  "room_id (room_of n) = room_id n" "building (room_of n) = building n"
  "capacity (room_of n) = capacity n" "facilities (room_of n) = facilities n"
  by (simp_all add: room_of_def)

lemma frame_push_adjacent [simp]: "frame (push_adjacent k x g) = frame g"
  by (induction g) (auto simp add: frame_def push_adjacent_def)

lemma frame_connect [simp]: "frame (connect r1 r2 g) = frame g"
  by (simp add: connect_def Let_def)

lemma frame_fold:
  assumes "\<And>p g. frame (step p g) = frame g"
  shows "frame (fold step ps g) = frame g"
  by (induction ps arbitrary: g) (simp_all add: assms)

lemma frame_add_edges [simp]: "frame (add_edges rs g) = frame g"
  unfolding add_edges_def
  by (rule frame_fold) (auto intro!: frame_fold split: prod.splits)

lemma map_fst_frame [simp]: "map fst (frame g) = map fst g"
  by (simp add: frame_def case_prod_unfold)

lemma keys_add_edges [simp]: "map fst (add_edges rs g) = map fst g"
proof -
  have "map fst (frame (add_edges rs g)) = map fst (frame g)"
    by (simp only: frame_add_edges)
  then show ?thesis by (simp only: map_fst_frame)
qed

lemma keyed_update: "keyed g \<Longrightarrow> room_id v = k \<Longrightarrow> keyed (AList.update k v g)"
  by (induction g) (auto simp add: keyed_def)

lemma keyed_fold_update:
  "keyed g \<Longrightarrow> keyed (fold (\<lambda>room g. AList.update (room_id room) (new_node room) g) rs g)"
  by (induction rs arbitrary: g) (simp_all add: keyed_update new_node_def)

lemma keyed_add_nodes: "keyed (add_nodes rs)"
  unfolding add_nodes_def by (rule keyed_fold_update) (simp add: keyed_def)

lemma keyed_frame: "keyed g \<longleftrightarrow> (\<forall>(k, r) \<in> set (frame g). room_id r = k)"
  by (auto simp add: keyed_def frame_def)

lemma keyed_add_edges: "keyed g \<Longrightarrow> keyed (add_edges rs g)"
  by (simp add: keyed_frame)

lemma keyed_buildRoomsGraph: "keyed (roomsGraph (buildRoomsGraph st))"
  by (simp add: buildRoomsGraph_def keyed_add_edges keyed_add_nodes)

lemma buildRoomsGraph_fields [simp]:
  "schedulesArray (buildRoomsGraph st) = schedulesArray st"
  "allRooms (buildRoomsGraph st) = allRooms st"
  "logsQueue (buildRoomsGraph st) = logsQueue st"
  by (simp_all add: buildRoomsGraph_def)

subsection \<open>The filters of the allocator\<close>

lemma foldl_closer_mem: "foldl (closer c) x xs \<in> set (x # xs)"
  by (induction xs arbitrary: x) (auto simp add: closer_def Let_def)


lemma suitable_iff:
  "suitable st requirements (roomId, rm) \<longleftrightarrow>
     \<not> less_number (capacity rm) (req_capacity requirements)
     \<and> (req_building requirements \<noteq> [] \<longrightarrow> building rm = req_building requirements)
     \<and> facilitiesMatch (facility_entries (req_facilities requirements) (facilities rm))
     \<and> checkAvailability st roomId (date requirements) (start_time requirements) (end_time requirements)"
  by (auto simp add: suitable_def)

lemma allocateRoom_Allocated:
  assumes "allocateRoom env requirements st = (Allocated rm bid, st')"
  shows "\<exists>first rest. suitableRooms st requirements = first # rest
           \<and> rm = foldl (closer (req_capacity requirements)) first rest"
  using assms by (auto simp add: allocateRoom_def Let_def split: list.splits)

lemma allocated_is_suitable:
  assumes "allocateRoom env requirements st = (Allocated rm bid, st')"
  shows "\<exists>roomId. (roomId, rm) \<in> set (roomsGraph st) \<and> suitable st requirements (roomId, rm)"
proof -
  from allocateRoom_Allocated [OF assms] obtain first rest
    where s: "suitableRooms st requirements = first # rest"
      and rm: "rm = foldl (closer (req_capacity requirements)) first rest"
    by blast
  have "rm \<in> set (suitableRooms st requirements)"
    unfolding s rm by (rule foldl_closer_mem)
  then show ?thesis by (auto simp add: suitableRooms_def)
qed

subsection \<open>Which room a key holds\<close>

lemma map_of_fold_update:
  "map_of (fold (\<lambda>room g. AList.update (room_id room) (new_node room) g) rs g) k =
     (if \<exists>r \<in> set rs. room_id r = k
      then Some (new_node (last (filter (\<lambda>r. room_id r = k) rs)))
      else map_of g k)"
proof (induction rs arbitrary: g)
  case Nil
  then show ?case by simp
next
  case (Cons r rs)
  show ?case
  proof (cases "\<exists>r' \<in> set rs. room_id r' = k")
    case True
    then have "filter (\<lambda>r. room_id r = k) rs \<noteq> []"
      by (simp add: filter_empty_conv)
    with True show ?thesis by (simp add: Cons.IH)
  next
    case False
    then have "filter (\<lambda>r. room_id r = k) rs = []"
      by (simp add: filter_empty_conv)
    with False show ?thesis by (simp add: Cons.IH update_conv')
  qed
qed

lemma distinct_fold_update:
  "distinct (map fst g) \<Longrightarrow>
   distinct (map fst (fold (\<lambda>room g. AList.update (room_id room) (new_node room) g) rs g))"
  by (induction rs arbitrary: g) (simp_all add: distinct_update)

lemma distinct_keys_add_nodes: "distinct (map fst (add_nodes rs))"
  unfolding add_nodes_def by (rule distinct_fold_update) simp

lemma distinct_keys_buildRoomsGraph: "distinct (map fst (roomsGraph (buildRoomsGraph st)))"
  by (simp add: buildRoomsGraph_def distinct_keys_add_nodes)

lemma map_of_frame: "map_of (frame g) k = map_option room_of (map_of g k)"
  by (induction g) (auto simp add: frame_def)

lemma in_frame: "(k, n) \<in> set g \<Longrightarrow> (k, room_of n) \<in> set (frame g)"
  by (force simp add: frame_def)

lemma entry_is_last_room:
  assumes "(k, n) \<in> set (roomsGraph (buildRoomsGraph st))"
  shows "room_of n = last (filter (\<lambda>r. room_id r = k) (allRooms st))
         \<and> (\<exists>r \<in> set (allRooms st). room_id r = k)"
proof -
  let ?rs = "allRooms st"
  from assms have "(k, n) \<in> set (add_edges ?rs (add_nodes ?rs))"
    by (simp add: buildRoomsGraph_def)
  then have "(k, room_of n) \<in> set (frame (add_edges ?rs (add_nodes ?rs)))"
    by (rule in_frame)
  then have "(k, room_of n) \<in> set (frame (add_nodes ?rs))"
    by (simp only: frame_add_edges)
  moreover have "distinct (map fst (frame (add_nodes ?rs)))"
    by (simp add: distinct_keys_add_nodes)
  ultimately have "map_of (frame (add_nodes ?rs)) k = Some (room_of n)"
    by (rule map_of_is_SomeI [rotated])
  then have "map_option room_of (map_of (add_nodes ?rs) k) = Some (room_of n)"
    by (simp add: map_of_frame)
  then show ?thesis
    by (auto simp add: add_nodes_def map_of_fold_update split: if_splits)
qed


subsection \<open>The rooms graph of a store with distinct identifiers\<close>








subsection \<open>What a successful allocation guarantees\<close>





subsection \<open>Selection among the candidates\<close>









subsection \<open>Rooms are identified by their identifier alone\<close>

lemma handleAddRoomSubmit_new:
  assumes "\<forall>r \<in> set (allRooms st). room_id r = room_id newRoom \<longrightarrow> building r \<noteq> building newRoom"
  shows "fst (handleAddRoomSubmit now newRoom st) = (''Room added successfully!'', ''success'')"
    and "allRooms (snd (handleAddRoomSubmit now newRoom st)) = allRooms st @ [newRoom]"
proof -
  from assms have "\<not> list_ex (\<lambda>r. room_id r = room_id newRoom \<and> building r = building newRoom) (allRooms st)"
    by (auto simp add: list_ex_iff)
  then show "fst (handleAddRoomSubmit now newRoom st) = (''Room added successfully!'', ''success'')"
    and "allRooms (snd (handleAddRoomSubmit now newRoom st)) = allRooms st @ [newRoom]"
    by (simp_all add: handleAddRoomSubmit_def Let_def)
qed

lemma booking_blocks_room_id:
  assumes "b \<in> set (schedulesArray st)" "date b = date requirements"
    "\<not> (end_time requirements \<le> start_time b \<or> start_time requirements \<ge> end_time b)"
  shows "\<not> checkAvailability st (room_id (room b)) (date requirements)
            (start_time requirements) (end_time requirements)"
  using assms unfolding checkAvailability_def list_ex_iff by auto

text \<open>
  C9: \<^const>\<open>handleAddRoomSubmit\<close> accepts a room whenever no stored room has both its
  \<^verbatim>\<open>room_id\<close> and its building, so two rooms may share a \<^verbatim>\<open>room_id\<close> across buildings.
  The rooms graph has one entry per \<^verbatim>\<open>room_id\<close>, and the entry holds the fields of
  the last room of the store with that \<^verbatim>\<open>room_id\<close>; hence the room that an allocation
  returns is always the last one of the store with its \<^verbatim>\<open>room_id\<close>. A booking that
  overlaps the requested interval on the requested date makes \<^const>\<open>checkAvailability\<close>
  false for its \<^verbatim>\<open>room_id\<close>, so no node with that \<^verbatim>\<open>room_id\<close>, whatever its building,
  passes the filters or is returned.
\<close>

theorem rooms_identified_by_room_id:
  "((\<forall>r \<in> set (allRooms st). room_id r = room_id newRoom \<longrightarrow> building r \<noteq> building newRoom) \<longrightarrow>
      fst (handleAddRoomSubmit now newRoom st) = (''Room added successfully!'', ''success'')
      \<and> allRooms (snd (handleAddRoomSubmit now newRoom st)) = allRooms st @ [newRoom])
   \<and> distinct (map fst (roomsGraph (buildRoomsGraph st)))
   \<and> ((k, n) \<in> set (roomsGraph (buildRoomsGraph st)) \<longrightarrow>
        room_id n = k \<and> room_of n = last (filter (\<lambda>r. room_id r = k) (allRooms st)))
   \<and> (allocateRoom env requirements (buildRoomsGraph st) = (Allocated rm bid, st') \<longrightarrow>
        room_of rm = last (filter (\<lambda>r. room_id r = room_id rm) (allRooms st)))
   \<and> (b \<in> set (schedulesArray st) \<and> date b = date requirements
        \<and> \<not> (end_time requirements \<le> start_time b \<or> start_time requirements \<ge> end_time b) \<longrightarrow>
        \<not> checkAvailability (buildRoomsGraph st) (room_id (room b)) (date requirements)
            (start_time requirements) (end_time requirements)
        \<and> (\<forall>other. room_id other = room_id (room b) \<longrightarrow>
              \<not> suitable (buildRoomsGraph st) requirements (room_id other, other))
        \<and> (allocateRoom env requirements (buildRoomsGraph st) = (Allocated rm bid, st') \<longrightarrow>
              room_id rm \<noteq> room_id (room b)))"
proof -
  have entry: "room_id n = k \<and> room_of n = last (filter (\<lambda>r. room_id r = k) (allRooms st))"
    if "(k, n) \<in> set (roomsGraph (buildRoomsGraph st))" for k n
    using that keyed_buildRoomsGraph [of st] entry_is_last_room [OF that]
    by (auto simp add: keyed_def)
  have returned: "\<exists>k. (k, rm) \<in> set (roomsGraph (buildRoomsGraph st))
                     \<and> suitable (buildRoomsGraph st) requirements (k, rm)"
    if "allocateRoom env requirements (buildRoomsGraph st) = (Allocated rm bid, st')"
    using allocated_is_suitable [OF that] .
  have last_room: "room_of rm = last (filter (\<lambda>r. room_id r = room_id rm) (allRooms st))"
    if "allocateRoom env requirements (buildRoomsGraph st) = (Allocated rm bid, st')"
    using returned [OF that] entry by blast
  have blocks: "\<not> checkAvailability (buildRoomsGraph st) (room_id (room b)) (date requirements)
            (start_time requirements) (end_time requirements)
        \<and> (\<forall>other. room_id other = room_id (room b) \<longrightarrow>
              \<not> suitable (buildRoomsGraph st) requirements (room_id other, other))
        \<and> (allocateRoom env requirements (buildRoomsGraph st) = (Allocated rm bid, st') \<longrightarrow>
              room_id rm \<noteq> room_id (room b))"
    if b: "b \<in> set (schedulesArray st)" "date b = date requirements"
      "\<not> (end_time requirements \<le> start_time b \<or> start_time requirements \<ge> end_time b)"
  proof -
    from b have "b \<in> set (schedulesArray (buildRoomsGraph st))" by simp
    from booking_blocks_room_id [OF this b(2,3)]
    have taken: "\<not> checkAvailability (buildRoomsGraph st) (room_id (room b)) (date requirements)
            (start_time requirements) (end_time requirements)" .
    then have unsuitable: "\<not> suitable (buildRoomsGraph st) requirements (room_id other, other)"
      if "room_id other = room_id (room b)" for other
      using that by (simp add: suitable_iff)
    have "room_id rm \<noteq> room_id (room b)"
      if run: "allocateRoom env requirements (buildRoomsGraph st) = (Allocated rm bid, st')"
    proof
      assume same: "room_id rm = room_id (room b)"
      from returned [OF run] obtain k where k: "(k, rm) \<in> set (roomsGraph (buildRoomsGraph st))"
        "suitable (buildRoomsGraph st) requirements (k, rm)" by blast
      from entry [OF k(1)] have "k = room_id rm" by simp
      with k(2) unsuitable [OF same] show False by simp
    qed
    with taken unsuitable show ?thesis by blast
  qed
  from handleAddRoomSubmit_new [of st newRoom now] distinct_keys_buildRoomsGraph [of st]
    entry last_room blocks
  show ?thesis by blast
qed

theorem rooms_identified_by_room_id_witness:
  "allRooms (snd (handleAddRoomSubmit ''2025-01-01T07:00:00.000Z'' (shared_id_rooms ! 2)
       (buildRoomsGraph (initial_state\<lparr>allRooms := take 2 shared_id_rooms\<rparr>)))) = shared_id_rooms
   \<and> map_of (roomsGraph (buildRoomsGraph shared_id_state)) ''1''
       = Some ((new_node (shared_id_rooms ! 2))\<lparr>adjacentRooms := [''2'', ''1'']\<rparr>)
   \<and> room_of ((new_node (shared_id_rooms ! 2))\<lparr>adjacentRooms := [''2'', ''1'']\<rparr>)
       = last (filter (\<lambda>r. room_id r = ''1'') (allRooms shared_id_state))
   \<and> allocated_room (fst (allocateRoom example_environment tie_request (buildRoomsGraph shared_id_state)))
       = Some (shared_id_rooms ! 2)
   \<and> building (room (hd (schedulesArray shared_id_booked))) = ''Main''
   \<and> \<not> checkAvailability (buildRoomsGraph shared_id_booked) ''1'' ''2025-01-01'' ''09:00'' ''10:00''
   \<and> allocated_room (fst (allocateRoom example_environment tie_request (buildRoomsGraph shared_id_booked)))
       = Some (shared_id_rooms ! 1)"
proof -
  let ?two = "buildRoomsGraph (initial_state\<lparr>allRooms := take 2 shared_id_rooms\<rparr>)"
  let ?n = "(new_node (shared_id_rooms ! 2))\<lparr>adjacentRooms := [''2'', ''1'']\<rparr>"
  let ?b = "book tie_request (new_node (hd shared_id_rooms))"
  note claim = rooms_identified_by_room_id
  have other: "\<forall>r \<in> set (allRooms ?two). room_id r = room_id (shared_id_rooms ! 2)
                  \<longrightarrow> building r \<noteq> building (shared_id_rooms ! 2)"
    by code_simp
  have two: "allRooms ?two @ [shared_id_rooms ! 2] = shared_id_rooms"
    by code_simp
  from claim [where st = ?two and newRoom = "shared_id_rooms ! 2" and now = "''2025-01-01T07:00:00.000Z''"]
    other
  have "allRooms (snd (handleAddRoomSubmit ''2025-01-01T07:00:00.000Z'' (shared_id_rooms ! 2) ?two))
          = allRooms ?two @ [shared_id_rooms ! 2]"
    by blast
  then have 1: "allRooms (snd (handleAddRoomSubmit ''2025-01-01T07:00:00.000Z'' (shared_id_rooms ! 2) ?two))
          = shared_id_rooms"
    by (simp only: two)
  have 2: "map_of (roomsGraph (buildRoomsGraph shared_id_state)) ''1'' = Some ?n"
    by code_simp
  then have "(''1'', ?n) \<in> set (roomsGraph (buildRoomsGraph shared_id_state))"
    by (rule map_of_SomeD)
  with claim [where st = shared_id_state and k = "''1''" and n = ?n]
  have 3: "room_of ?n = last (filter (\<lambda>r. room_id r = ''1'') (allRooms shared_id_state))"
    by blast
  have 4: "allocated_room (fst (allocateRoom example_environment tie_request (buildRoomsGraph shared_id_state)))
       = Some (shared_id_rooms ! 2)"
    by code_simp
  have 5: "building (room (hd (schedulesArray shared_id_booked))) = ''Main''"
    by code_simp
  have b: "?b \<in> set (schedulesArray shared_id_booked)" "date ?b = date tie_request"
    "\<not> (end_time tie_request \<le> start_time ?b \<or> start_time tie_request \<ge> end_time ?b)"
    "room_id (room ?b) = ''1''" "date tie_request = ''2025-01-01''"
    "start_time tie_request = ''09:00''" "end_time tie_request = ''10:00''"
    by code_simp+
  from claim [where st = shared_id_booked and b = ?b and requirements = tie_request] b(1-3)
  have "\<not> checkAvailability (buildRoomsGraph shared_id_booked) (room_id (room ?b)) (date tie_request)
            (start_time tie_request) (end_time tie_request)"
    by blast
  then have 6: "\<not> checkAvailability (buildRoomsGraph shared_id_booked) ''1'' ''2025-01-01'' ''09:00'' ''10:00''"
    unfolding b(4) b(5) b(6) b(7) .
  have 7: "allocated_room (fst (allocateRoom example_environment tie_request (buildRoomsGraph shared_id_booked)))
       = Some (shared_id_rooms ! 1)"
    by code_simp
  from 1 2 3 4 5 6 7 show ?thesis by (intro conjI)
qed

subsection \<open>Adjacency in the rooms graph\<close>

lemma similarCapacity_commute: "similarCapacity c1 c2 = similarCapacity c2 c1"
  by (cases c1; cases c2; simp add: similarCapacity_Num abs_minus_commute max.commute)

lemma related_commute: "related a b = related b a"
  using similarCapacity_commute [of "capacity a" "capacity b"] by (auto simp add: related_def)

lemma keys_push_adjacent [simp]: "map fst (push_adjacent key x g) = map fst g"
  by (induction g) (auto simp add: push_adjacent_def)

lemma keys_connect [simp]: "map fst (connect r1 r2 g) = map fst g"
  by (simp add: connect_def Let_def)

lemma key_set_push_adjacent [simp]: "fst ` set (push_adjacent key x g) = fst ` set g"
  using keys_push_adjacent [of key x g, THEN arg_cong, of set] by (simp only: set_map)

lemma key_set_connect [simp]: "fst ` set (connect r1 r2 g) = fst ` set g"
  using keys_connect [of r1 r2 g, THEN arg_cong, of set] by (simp only: set_map)

lemma map_of_push_adjacent:
  "map_of (push_adjacent key x g) k =
     map_option (\<lambda>n. if k = key then n\<lparr>adjacentRooms := adjacentRooms n @ [x]\<rparr> else n) (map_of g k)"
  by (induction g) (auto simp add: push_adjacent_def)

lemma adjacent_of_push_adjacent:
  "adjacent_of (push_adjacent key x g) k =
     (if k = key \<and> key \<in> fst ` set g then adjacent_of g k @ [x] else adjacent_of g k)"
proof (cases "map_of g k")
  case None
  then have "k \<notin> fst ` set g" by (simp add: map_of_eq_None_iff)
  with None show ?thesis by (auto simp add: adjacent_of_def map_of_push_adjacent)
next
  case (Some n)
  then have "k \<in> fst ` set g" by (metis map_of_eq_None_iff option.distinct(1))
  with Some show ?thesis by (auto simp add: adjacent_of_def map_of_push_adjacent)
qed

lemma adjacent_of_connect:
  assumes "room_id r1 \<in> fst ` set g" "room_id r2 \<in> fst ` set g"
  shows "set (adjacent_of (connect r1 r2 g) k) = set (adjacent_of g k) \<union> contribution r1 r2 k"
  using assms
  by (auto simp add: connect_def Let_def contribution_def related_def adjacent_of_push_adjacent)


lemma fold_accumulates:
  assumes "\<And>p g. p \<in> set ps \<Longrightarrow> I g \<Longrightarrow> I (step p g) \<and> (\<forall>k. A (step p g) k = A g k \<union> C p k)"
    and "I g"
  shows "I (fold step ps g) \<and> (\<forall>k. A (fold step ps g) k = A g k \<union> (\<Union>p \<in> set ps. C p k))"
  using assms
proof (induction ps arbitrary: g)
  case Nil
  then show ?case by simp
next
  case (Cons p ps)
  from Cons.prems(1) [of p g] Cons.prems(2)
  have first: "I (step p g)" "\<forall>k. A (step p g) k = A g k \<union> C p k"
    by simp_all
  have "I (fold step ps (step p g)) \<and>
        (\<forall>k. A (fold step ps (step p g)) k = A (step p g) k \<union> (\<Union>p \<in> set ps. C p k))"
    by (rule Cons.IH [OF _ first(1)]) (simp add: Cons.prems(1))
  with first(2) show ?case by auto
qed


lemma fold_product:
  "fold (\<lambda>x. fold (f x) ys) xs g = fold (\<lambda>(x, y). f x y) (List.product xs ys) g"
proof (induction xs arbitrary: g)
  case Nil
  then show ?case by simp
next
  case (Cons x xs)
  have "fold (\<lambda>(x, y). f x y) (map (Pair x) ys) g = fold (f x) ys g"
    by (simp add: fold_map comp_def)
  then show ?case by (simp add: Cons.IH)
qed

lemma add_edges_flat: "add_edges rs g = fold connect_pair (index_pairs rs) g"
proof -
  let ?f = "\<lambda>(x :: nat \<times> room) (y :: nat \<times> room) g.
              if fst x \<ge> fst y then g else connect (snd x) (snd y) g"
  have "add_edges rs g = fold (\<lambda>x. fold (?f x) (enumerate 0 rs)) (enumerate 0 rs) g"
    unfolding add_edges_def by (simp add: case_prod_unfold)
  also have "\<dots> = fold (\<lambda>(x, y). ?f x y) (List.product (enumerate 0 rs) (enumerate 0 rs)) g"
    by (rule fold_product)
  also have "(\<lambda>(x, y). ?f x y)
      = (\<lambda>p. if fst (fst p) < fst (snd p) then connect_pair p else id)"
    by (auto simp add: fun_eq_iff connect_pair_def)
  finally show ?thesis
    unfolding index_pairs_def fold_filter .
qed

lemma in_index_pairs:
  "p \<in> set (index_pairs rs) \<longleftrightarrow>
     (\<exists>i j. i < j \<and> j < length rs \<and> p = ((i, rs ! i), (j, rs ! j)))"
proof
  assume "p \<in> set (index_pairs rs)"
  then obtain i r1 j r2 where p: "p = ((i, r1), (j, r2))" "i < j"
    "(i, r1) \<in> set (enumerate 0 rs)" "(j, r2) \<in> set (enumerate 0 rs)"
    by (auto simp add: index_pairs_def)
  then have "j < length rs" "r1 = rs ! i" "r2 = rs ! j"
    by (simp_all add: in_set_enumerate_eq)
  with p show "\<exists>i j. i < j \<and> j < length rs \<and> p = ((i, rs ! i), (j, rs ! j))"
    by blast
next
  assume "\<exists>i j. i < j \<and> j < length rs \<and> p = ((i, rs ! i), (j, rs ! j))"
  then obtain i j where "i < j" "j < length rs" "p = ((i, rs ! i), (j, rs ! j))"
    by blast
  then show "p \<in> set (index_pairs rs)"
    by (simp add: index_pairs_def in_set_enumerate_eq)
qed


lemma key_set_add_nodes: "fst ` set (add_nodes rs) = room_id ` set rs"
proof -
  have "k \<in> fst ` set (add_nodes rs) \<longleftrightarrow> k \<in> room_id ` set rs" for k
  proof -
    have "k \<in> fst ` set (add_nodes rs) \<longleftrightarrow> map_of (add_nodes rs) k \<noteq> None"
      by (simp add: map_of_eq_None_iff)
    also have "\<dots> \<longleftrightarrow> (\<exists>r \<in> set rs. room_id r = k)"
      by (simp add: add_nodes_def map_of_fold_update)
    also have "\<dots> \<longleftrightarrow> k \<in> room_id ` set rs"
      by auto
    finally show ?thesis .
  qed
  then show ?thesis by blast
qed

lemma adjacent_of_add_nodes: "adjacent_of (add_nodes rs) k = []"
proof -
  have "map_of (add_nodes rs) k =
     (if \<exists>r \<in> set rs. room_id r = k
      then Some (new_node (last (filter (\<lambda>r. room_id r = k) rs))) else None)"
    by (simp add: add_nodes_def map_of_fold_update)
  then show ?thesis by (simp add: adjacent_of_def new_node_def)
qed

lemma adjacent_sets_add_edges:
  assumes "room_id ` set rs \<subseteq> fst ` set g"
  shows "set (adjacent_of (add_edges rs g) k)
     = set (adjacent_of g k)
       \<union> (\<Union>p \<in> set (index_pairs rs). contribution (snd (fst p)) (snd (snd p)) k)"
proof -
  let ?I = "\<lambda>g'. fst ` set g' = fst ` set g"
  let ?A = "\<lambda>g' k. set (adjacent_of g' k)"
  let ?C = "\<lambda>p k. contribution (snd (fst p)) (snd (snd p)) k"
  let ?step = connect_pair
  have "?I (fold ?step (index_pairs rs) g)
        \<and> (\<forall>k. ?A (fold ?step (index_pairs rs) g) k = ?A g k \<union> (\<Union>p \<in> set (index_pairs rs). ?C p k))"
  proof (rule fold_accumulates)
    show "?I g" ..
  next
    fix p and g' :: rooms_map
    assume p: "p \<in> set (index_pairs rs)" and keys: "?I g'"
    from p obtain i j where ij: "i < j" "j < length rs" "p = ((i, rs ! i), (j, rs ! j))"
      by (auto simp add: in_index_pairs)
    then have "rs ! i \<in> set rs" "rs ! j \<in> set rs" by simp_all
    with assms keys have "room_id (rs ! i) \<in> fst ` set g'" "room_id (rs ! j) \<in> fst ` set g'"
      by auto
    from adjacent_of_connect [OF this] keys
    show "?I (?step p g') \<and> (\<forall>k. ?A (?step p g') k = ?A g' k \<union> ?C p k)"
      by (simp add: ij(3) connect_pair_def)
  qed
  then show ?thesis by (simp add: add_edges_flat)
qed

lemma adjacent_in_graph:
  "x \<in> set (adjacent_of (roomsGraph (buildRoomsGraph st)) k) \<longleftrightarrow>
     (\<exists>a b. a < length (allRooms st) \<and> b < length (allRooms st) \<and> a \<noteq> b
         \<and> related (allRooms st ! a) (allRooms st ! b)
         \<and> k = room_id (allRooms st ! a) \<and> x = room_id (allRooms st ! b))"
proof -
  let ?rs = "allRooms st"
  have sets: "set (adjacent_of (roomsGraph (buildRoomsGraph st)) k)
     = (\<Union>p \<in> set (index_pairs ?rs). contribution (snd (fst p)) (snd (snd p)) k)"
    by (simp add: buildRoomsGraph_def adjacent_sets_add_edges key_set_add_nodes adjacent_of_add_nodes)
  show ?thesis
  proof
    assume "x \<in> set (adjacent_of (roomsGraph (buildRoomsGraph st)) k)"
    then obtain p where p: "p \<in> set (index_pairs ?rs)"
      and x: "x \<in> contribution (snd (fst p)) (snd (snd p)) k"
      unfolding sets by blast
    from p obtain i j where ij: "i < j" "j < length ?rs" "p = ((i, ?rs ! i), (j, ?rs ! j))"
      by (auto simp add: in_index_pairs)
    from x have "x \<in> contribution (?rs ! i) (?rs ! j) k" by (simp add: ij(3))
    then consider "related (?rs ! i) (?rs ! j)" "k = room_id (?rs ! i)" "x = room_id (?rs ! j)"
      | "related (?rs ! i) (?rs ! j)" "k = room_id (?rs ! j)" "x = room_id (?rs ! i)"
      by (auto simp add: contribution_def split: if_splits)
    then show "\<exists>a b. a < length ?rs \<and> b < length ?rs \<and> a \<noteq> b \<and> related (?rs ! a) (?rs ! b)
         \<and> k = room_id (?rs ! a) \<and> x = room_id (?rs ! b)"
    proof cases
      case 1
      with ij show ?thesis by (intro exI [of _ i] exI [of _ j]) simp
    next
      case 2
      with ij show ?thesis by (intro exI [of _ j] exI [of _ i]) (simp add: related_commute)
    qed
  next
    assume "\<exists>a b. a < length ?rs \<and> b < length ?rs \<and> a \<noteq> b \<and> related (?rs ! a) (?rs ! b)
         \<and> k = room_id (?rs ! a) \<and> x = room_id (?rs ! b)"
    then obtain a b where ab: "a < length ?rs" "b < length ?rs" "a \<noteq> b"
      "related (?rs ! a) (?rs ! b)" "k = room_id (?rs ! a)" "x = room_id (?rs ! b)"
      by blast
    show "x \<in> set (adjacent_of (roomsGraph (buildRoomsGraph st)) k)"
    proof (cases "a < b")
      case True
      with ab have "((a, ?rs ! a), (b, ?rs ! b)) \<in> set (index_pairs ?rs)"
        by (auto simp add: in_index_pairs)
      moreover from ab have "x \<in> contribution (?rs ! a) (?rs ! b) k"
        by (simp add: contribution_def)
      ultimately show ?thesis unfolding sets by force
    next
      case False
      with ab have "((b, ?rs ! b), (a, ?rs ! a)) \<in> set (index_pairs ?rs)"
        by (auto simp add: in_index_pairs)
      moreover from ab have "x \<in> contribution (?rs ! b) (?rs ! a) k"
        by (simp add: contribution_def related_commute)
      ultimately show ?thesis unfolding sets by force
    qed
  qed
qed










subsection \<open>Adjacency in the visualizer, and the two builders compared\<close>

lemma laid_out_length: "laid_out rs v \<Longrightarrow> length (nodes v) = length rs"
  unfolding laid_out_def by (metis length_map)

lemma vertex_id_push_vertex [simp]:
  "map vertex_id (push_vertex i x ns) = map vertex_id ns"
proof -
  have "map vertex_id (push_vertex i x ns) = (map vertex_id ns)[i := vertex_id (ns ! i)]"
    by (simp add: push_vertex_def map_update)
  also have "\<dots> = map vertex_id (ns[i := ns ! i])"
    by (simp only: map_update)
  also have "\<dots> = map vertex_id ns"
    by simp
  finally show ?thesis .
qed

lemma length_push_vertex [simp]: "length (push_vertex i x ns) = length ns"
  by (simp add: push_vertex_def)

lemma adjacent_push_vertex:
  "i < length ns \<Longrightarrow>
   vertex_adjacentRooms (push_vertex i x ns ! k)
     = (if k = i then vertex_adjacentRooms (ns ! i) @ [x] else vertex_adjacentRooms (ns ! k))"
  by (simp add: push_vertex_def nth_list_update)

lemma link_step:
  assumes "laid_out rs v" "i < j" "j < length rs"
  shows "laid_out rs (link rs i j v)
     \<and> (\<forall>k. vertex_adjacent (link rs i j v) k = vertex_adjacent v k \<union> index_contribution rs i j k)"
proof -
  from assms have len: "i < length (nodes v)" "j < length (nodes v)" "i \<noteq> j"
    by (simp_all add: laid_out_length)
  have "laid_out rs (link rs i j v)"
    using assms(1) by (simp add: laid_out_def link_def Let_def)
  moreover have "vertex_adjacent (link rs i j v) k = vertex_adjacent v k \<union> index_contribution rs i j k" for k
    using len
    by (auto simp add: link_def Let_def vertex_adjacent_def index_contribution_def related_def
          adjacent_push_vertex)
  ultimately show ?thesis by blast
qed


lemma inner_loop:
  assumes "laid_out rs v" "i < length rs"
  shows "laid_out rs (fold (\<lambda>j v. link rs i j v) [i + 1 ..< length rs] v)
     \<and> (\<forall>k. vertex_adjacent (fold (\<lambda>j v. link rs i j v) [i + 1 ..< length rs] v) k
            = vertex_adjacent v k \<union> (\<Union>j \<in> set [i + 1 ..< length rs]. index_contribution rs i j k))"
proof (rule fold_accumulates [where I = "laid_out rs" and A = vertex_adjacent
      and C = "index_contribution rs i"])
  show "laid_out rs v" by (rule assms(1))
next
  fix j v'
  assume "j \<in> set [i + 1 ..< length rs]" and v': "laid_out rs v'"
  then have "i < j" "j < length rs" by simp_all
  from link_step [OF v' this]
  show "laid_out rs (link rs i j v')
     \<and> (\<forall>k. vertex_adjacent (link rs i j v') k = vertex_adjacent v' k \<union> index_contribution rs i j k)" .
qed

lemma outer_loop:
  assumes "laid_out rs v"
  shows "laid_out rs (fold (\<lambda>i v. fold (\<lambda>j v. link rs i j v) [i + 1 ..< length rs] v) [0 ..< length rs] v)
     \<and> (\<forall>k. vertex_adjacent
              (fold (\<lambda>i v. fold (\<lambda>j v. link rs i j v) [i + 1 ..< length rs] v) [0 ..< length rs] v) k
            = vertex_adjacent v k
              \<union> (\<Union>i \<in> set [0 ..< length rs]. \<Union>j \<in> set [i + 1 ..< length rs]. index_contribution rs i j k))"
proof (rule fold_accumulates [where I = "laid_out rs" and A = vertex_adjacent
      and C = "\<lambda>i k. \<Union>j \<in> set [i + 1 ..< length rs]. index_contribution rs i j k"])
  show "laid_out rs v" by (rule assms)
next
  fix i v'
  assume "i \<in> set [0 ..< length rs]" and v': "laid_out rs v'"
  then have "i < length rs" by simp
  from inner_loop [OF v' this]
  show "laid_out rs (fold (\<lambda>j v. link rs i j v) [i + 1 ..< length rs] v')
     \<and> (\<forall>k. vertex_adjacent (fold (\<lambda>j v. link rs i j v) [i + 1 ..< length rs] v') k
            = vertex_adjacent v' k \<union> (\<Union>j \<in> set [i + 1 ..< length rs]. index_contribution rs i j k))" .
qed

lemma buildGraph_laid_out: "laid_out rs (buildGraph rs)"
proof (cases "rs = []")
  case True
  then show ?thesis by (simp add: buildGraph_def laid_out_def)
next
  case False
  have "laid_out rs \<lparr>nodes = map new_vertex rs, edges = []\<rparr>"
    by (simp add: laid_out_def new_vertex_def comp_def)
  from outer_loop [OF this] False show ?thesis by (simp add: buildGraph_def)
qed

lemma adjacent_in_visualizer:
  assumes "k < length rs"
  shows "x \<in> vertex_adjacent (buildGraph rs) k \<longleftrightarrow>
     (\<exists>b. b < length rs \<and> b \<noteq> k \<and> related (rs ! k) (rs ! b) \<and> x = room_id (rs ! b))"
proof -
  let ?init = "\<lparr>nodes = map new_vertex rs, edges = []\<rparr>"
  from assms have ne: "rs \<noteq> []" by auto
  have init: "laid_out rs ?init"
    by (simp add: laid_out_def new_vertex_def comp_def)
  have empty: "vertex_adjacent ?init k = {}"
    using assms by (simp add: vertex_adjacent_def new_vertex_def)
  have sets: "vertex_adjacent (buildGraph rs) k
      = (\<Union>i \<in> set [0 ..< length rs]. \<Union>j \<in> set [i + 1 ..< length rs]. index_contribution rs i j k)"
    using outer_loop [OF init] ne empty by (simp add: buildGraph_def)
  show ?thesis
  proof
    assume "x \<in> vertex_adjacent (buildGraph rs) k"
    then obtain i j where "i \<in> set [0 ..< length rs]" "j \<in> set [i + 1 ..< length rs]"
      and x: "x \<in> index_contribution rs i j k"
      unfolding sets by blast
    then have "i < j" "j < length rs" by simp_all
    note ij = this x
    then consider "related (rs ! i) (rs ! j)" "k = i" "x = room_id (rs ! j)"
      | "related (rs ! i) (rs ! j)" "k = j" "x = room_id (rs ! i)"
      by (auto simp add: index_contribution_def split: if_splits)
    then show "\<exists>b. b < length rs \<and> b \<noteq> k \<and> related (rs ! k) (rs ! b) \<and> x = room_id (rs ! b)"
    proof cases
      case 1
      with ij show ?thesis by (intro exI [of _ j]) simp
    next
      case 2
      with ij show ?thesis by (intro exI [of _ i]) (simp add: related_commute)
    qed
  next
    assume "\<exists>b. b < length rs \<and> b \<noteq> k \<and> related (rs ! k) (rs ! b) \<and> x = room_id (rs ! b)"
    then obtain b where b: "b < length rs" "b \<noteq> k" "related (rs ! k) (rs ! b)" "x = room_id (rs ! b)"
      by blast
    show "x \<in> vertex_adjacent (buildGraph rs) k"
    proof (cases "k < b")
      case True
      with b have "x \<in> index_contribution rs k b k"
        by (simp add: index_contribution_def)
      with True b(1) assms show ?thesis unfolding sets by force
    next
      case False
      with b(2) have "b < k" by simp
      moreover from b have "x \<in> index_contribution rs b k k"
        by (simp add: index_contribution_def related_commute)
      ultimately show ?thesis using assms unfolding sets by force
    qed
  qed
qed

text \<open>
  C8: for a room store with pairwise distinct \<^verbatim>\<open>room_id\<close>s, the adjacency list that
  \<^const>\<open>buildRoomsGraph\<close> stores under the \<^verbatim>\<open>room_id\<close> of the room at any index and the
  \<^verbatim>\<open>adjacentRooms\<close> list that \<^const>\<open>buildGraph\<close> builds for the node at that index (the
  node of the same room) have the same elements, although the first builder applies the
  capacity rule to every pair and the second only to pairs of different buildings.
\<close>

theorem builders_agree:
  assumes "distinct (map room_id (allRooms st))" and "i < length (allRooms st)"
  shows "set (adjacent_of (roomsGraph (buildRoomsGraph st)) (room_id (allRooms st ! i)))
           = set (vertex_adjacentRooms (nodes (buildGraph (allRooms st)) ! i))
     \<and> vertex_id (nodes (buildGraph (allRooms st)) ! i) = room_id (allRooms st ! i)
     \<and> length (nodes (buildGraph (allRooms st))) = length (allRooms st)"
proof -
  let ?rs = "allRooms st"
  have idx: "room_id (?rs ! a) = room_id (?rs ! b) \<longleftrightarrow> a = b"
    if "a < length ?rs" "b < length ?rs" for a b
    using nth_eq_iff_index_eq [OF assms(1), of a b] that by simp
  have "x \<in> set (adjacent_of (roomsGraph (buildRoomsGraph st)) (room_id (?rs ! i)))
          \<longleftrightarrow> x \<in> vertex_adjacent (buildGraph ?rs) i" for x
  proof -
    have "x \<in> set (adjacent_of (roomsGraph (buildRoomsGraph st)) (room_id (?rs ! i))) \<longleftrightarrow>
       (\<exists>a b. a < length ?rs \<and> b < length ?rs \<and> a \<noteq> b \<and> related (?rs ! a) (?rs ! b)
         \<and> room_id (?rs ! i) = room_id (?rs ! a) \<and> x = room_id (?rs ! b))"
      by (rule adjacent_in_graph)
    also have "\<dots> \<longleftrightarrow> (\<exists>b. b < length ?rs \<and> b \<noteq> i \<and> related (?rs ! i) (?rs ! b) \<and> x = room_id (?rs ! b))"
      using assms(2) idx by (metis (no_types, lifting))
    also have "\<dots> \<longleftrightarrow> x \<in> vertex_adjacent (buildGraph ?rs) i"
      by (rule adjacent_in_visualizer [OF assms(2), symmetric])
    finally show ?thesis .
  qed
  then have 1: "set (adjacent_of (roomsGraph (buildRoomsGraph st)) (room_id (?rs ! i)))
           = set (vertex_adjacentRooms (nodes (buildGraph ?rs) ! i))"
    unfolding vertex_adjacent_def by blast
  from buildGraph_laid_out [of ?rs]
  have ids: "map vertex_id (nodes (buildGraph ?rs)) = map room_id ?rs"
    by (simp add: laid_out_def)
  then have 3: "length (nodes (buildGraph ?rs)) = length ?rs"
    by (metis length_map)
  from ids assms(2) 3 have 2: "vertex_id (nodes (buildGraph ?rs) ! i) = room_id (?rs ! i)"
    by (metis nth_map)
  from 1 2 3 show ?thesis by (intro conjI)
qed

theorem builders_agree_witness:
  "distinct (map room_id (allRooms (initial_state\<lparr>allRooms := sample_rooms\<rparr>)))
   \<and> 0 < length (allRooms (initial_state\<lparr>allRooms := sample_rooms\<rparr>))
   \<and> adjacent_of (roomsGraph (buildRoomsGraph (initial_state\<lparr>allRooms := sample_rooms\<rparr>)))
        (room_id (allRooms (initial_state\<lparr>allRooms := sample_rooms\<rparr>) ! 0))
       = [''102'', ''201'', ''301'']
   \<and> set (vertex_adjacentRooms (nodes (buildGraph (allRooms (initial_state\<lparr>allRooms := sample_rooms\<rparr>))) ! 0))
       = set [''102'', ''201'', ''301'']"
proof -
  let ?st = "initial_state\<lparr>allRooms := sample_rooms\<rparr>"
  have d: "distinct (map room_id (allRooms ?st))" by code_simp
  have l: "0 < length (allRooms ?st)" by code_simp
  have g: "adjacent_of (roomsGraph (buildRoomsGraph ?st)) (room_id (allRooms ?st ! 0))
       = [''102'', ''201'', ''301'']"
    by code_simp
  from builders_agree [OF d l]
  have "set (adjacent_of (roomsGraph (buildRoomsGraph ?st)) (room_id (allRooms ?st ! 0)))
           = set (vertex_adjacentRooms (nodes (buildGraph (allRooms ?st)) ! 0))" ..
  then have v: "set (vertex_adjacentRooms (nodes (buildGraph (allRooms ?st)) ! 0))
       = set [''102'', ''201'', ''301'']"
    unfolding g by (rule sym)
  from d l g v show ?thesis by (intro conjI)
qed

subsection \<open>The rooms graph follows the room store\<close>

text \<open>
  Every operation that changes the room store rebuilds the rooms graph, and the others
  leave both alone; so in every state that the operations reach from the initial one,
  \<^const>\<open>buildRoomsGraph\<close> changes nothing, and the properties stated of
  \<^term>\<open>buildRoomsGraph st\<close> are properties of the state itself.
\<close>

lemma graph_current_initial: "graph_current initial_state"
  by (simp add: graph_current_def initial_state_def add_nodes_def add_edges_def)

lemma graph_current_buildRoomsGraph [simp]: "graph_current (buildRoomsGraph st)"
  by (simp add: graph_current_def buildRoomsGraph_def)

lemma buildRoomsGraph_current: "graph_current st \<Longrightarrow> buildRoomsGraph st = st"
  by (simp add: graph_current_def buildRoomsGraph_def)

lemma graph_current_addLog [simp]: "graph_current (addLog now t m st) = graph_current st"
  by (simp add: graph_current_def)

lemma graph_current_loadLogs: "graph_current st \<Longrightarrow> graph_current (loadLogs response st)"
  by (simp add: graph_current_def loadLogs_def Let_def split: fetched.splits option.splits)

lemma graph_current_loadSchedule: "graph_current st \<Longrightarrow> graph_current (loadSchedule response st)"
  by (simp add: graph_current_def loadSchedule_def Let_def split: fetched.splits option.splits)

lemma graph_current_loadRooms: "graph_current (loadRooms response st)"
  by (simp add: loadRooms_def)

lemma graph_current_initializeSampleDataOffline:
  "graph_current (initializeSampleDataOffline now st)"
  by (simp add: initializeSampleDataOffline_def)

lemma graph_current_initializeOfflineMode: "graph_current (initializeOfflineMode now st)"
proof -
  have "graph_current (case stored_rooms st of
          Some rs \<Rightarrow> buildRoomsGraph (st\<lparr>allRooms := rs\<rparr>)
        | None \<Rightarrow> initializeSampleDataOffline now st)"
    by (simp add: graph_current_initializeSampleDataOffline split: option.splits)
  then show ?thesis
    by (simp add: initializeOfflineMode_def Let_def graph_current_def split: option.splits)
qed

lemma graph_current_handleAddRoomSubmit:
  "graph_current st \<Longrightarrow> graph_current (snd (handleAddRoomSubmit now newRoom st))"
  by (simp add: handleAddRoomSubmit_def Let_def)

lemma graph_current_allocateRoom:
  "graph_current st \<Longrightarrow> graph_current (snd (allocateRoom env requirements st))"
  by (simp add: allocateRoom_def Let_def split: list.splits)

lemma graph_current_handleAllocationSubmit:
  assumes "graph_current st"
  shows "graph_current (snd (handleAllocationSubmit env formData st))"
proof (cases "allocateRoom env formData st")
  case (Pair result st1)
  with graph_current_allocateRoom [OF assms, of env formData]
  have "graph_current st1" by simp
  with assms Pair show ?thesis
    by (cases result) (simp_all add: handleAllocationSubmit_def Let_def graph_current_def)
qed

end
